theory Spec2Isabelle
  imports Main "HOL-Library.AList"
begin

section \<open>Go Pulse: the watch/build/run core of \<^verbatim>\<open>main.go\<close>\<close>

text \<open>
  The program keeps its state in package-level variables (\<^verbatim>\<open>config\<close>, \<^verbatim>\<open>cmd\<close>, three
  channels). The embedding passes that state explicitly: the configuration is a record,
  the fingerprint table an association list without repeated keys, the supervisor's
  variables a record, and the answers of the operating system (the entries a tree walk
  visits, the result of a build, the result of starting a program) are inputs.
\<close>

subsection \<open>Configuration\<close>

record Config =
  MainFile :: string
  BinaryName :: string
  WatchDir :: string
  WatchExts :: "string list"
  WatchInterval :: string
  MaxWatchers :: int

text \<open>The package-level default, \<^verbatim>\<open>var config = Config{...}\<close>.\<close>

definition config :: Config where
  "config = \<lparr>MainFile = ''main.go'', BinaryName = ''app'', WatchDir = ''.'',
     WatchExts = [''.go'', ''.mod'', ''.sum''], WatchInterval = ''1s'', MaxWatchers = 100\<rparr>"

text \<open>
  Durations are \<^verbatim>\<open>time.Duration\<close> values: a count of nanoseconds. The constants
  are far inside the 64-bit range, and the program only compares durations.
\<close>

definition Millisecond :: int where "Millisecond = 1000000"
definition Second :: int where "Second = 1000 * Millisecond"
definition Hour :: int where "Hour = 3600 * Second"

text \<open>
  The part of \<^verbatim>\<open>loadConfig\<close> that runs once \<^verbatim>\<open>json.Unmarshal\<close> has filled the
  configuration without error, in its three steps: the defaults for empty fields (lines
  142 to 153), the bounds of \<^verbatim>\<open>max_watchers\<close> (lines 154 to 160) and the bounds of the
  interval (lines 162 to 184). \<^verbatim>\<open>time.ParseDuration\<close> belongs to the Go library; it is
  the parameter \<open>ParseDuration\<close>, with \<open>None\<close> for its error. The local variable
  \<^verbatim>\<open>duration\<close> is returned beside the configuration.
\<close>

definition fillDefaults :: "Config \<Rightarrow> Config" where
  "fillDefaults c0 =
    (let c1 = (if MainFile c0 = [] then c0\<lparr>MainFile := ''main.go''\<rparr> else c0);
         c2 = (if BinaryName c1 = [] then c1\<lparr>BinaryName := ''app''\<rparr> else c1);
         c3 = (if WatchDir c2 = [] then c2\<lparr>WatchDir := ''.''\<rparr> else c2)
     in if length (WatchExts c3) = 0
        then c3\<lparr>WatchExts := [''.go'', ''.mod'', ''.sum'']\<rparr> else c3)"

definition clampMaxWatchers :: "Config \<Rightarrow> Config" where
  "clampMaxWatchers c =
    (if MaxWatchers c < 1 then c\<lparr>MaxWatchers := 100\<rparr>
     else if MaxWatchers c > 500 then c\<lparr>MaxWatchers := 500\<rparr>
     else c)"

definition clampWatchInterval :: "(string \<Rightarrow> int option) \<Rightarrow> Config \<Rightarrow> Config \<times> int" where
  "clampWatchInterval ParseDuration c =
    (let (c1, d1) = (case ParseDuration (WatchInterval c) of
                       None \<Rightarrow> (c\<lparr>WatchInterval := ''1s''\<rparr>, 1 * Second)
                     | Some duration \<Rightarrow>
                         if WatchInterval c = [] then (c\<lparr>WatchInterval := ''1s''\<rparr>, 1 * Second)
                         else (c, duration));
         minInterval = 500 * Millisecond;
         (c2, d2) = (if d1 < minInterval then (c1\<lparr>WatchInterval := ''500ms''\<rparr>, minInterval)
                     else (c1, d1));
         maxInterval = 1 * Hour
     in if d2 > maxInterval then (c2\<lparr>WatchInterval := ''1h''\<rparr>, maxInterval) else (c2, d2))"

definition validate :: "(string \<Rightarrow> int option) \<Rightarrow> Config \<Rightarrow> Config \<times> int" where
  "validate ParseDuration c0 = clampWatchInterval ParseDuration (clampMaxWatchers (fillDefaults c0))"

text \<open>
  The configuration file as \<^verbatim>\<open>loadConfig\<close> meets it: missing (\<^verbatim>\<open>os.IsNotExist\<close>),
  unreadable, or read. For a file that was read, \<^verbatim>\<open>json.Unmarshal(data, &config)\<close> is the
  function \<open>unmarshal\<close>: it may overwrite fields of the configuration it is given and
  returns an error or none.
\<close>

datatype config_file =
    NotExist
  | ReadError string
  | Data "Config \<Rightarrow> Config \<times> string option"

fun loadConfig :: "(string \<Rightarrow> int option) \<Rightarrow> config_file \<Rightarrow> Config \<Rightarrow> Config" where
  "loadConfig ParseDuration NotExist c = c"
| "loadConfig ParseDuration (ReadError e) c = c"
| "loadConfig ParseDuration (Data unmarshal) c =
    (case unmarshal c of
       (c', Some e) \<Rightarrow> c'
     | (c', None) \<Rightarrow> fst (validate ParseDuration c'))"

text \<open>
  A stand-in for \<^verbatim>\<open>time.ParseDuration\<close> that knows the duration strings of the spec's
  scenarios, to run \<^verbatim>\<open>loadConfig\<close> on them.
\<close>

definition parseScenario :: "string \<Rightarrow> int option" where
  "parseScenario x =
    (if x = ''300ms'' then Some (300 * Millisecond)
     else if x = ''2h'' then Some (2 * Hour)
     else if x = ''500ms'' then Some (500 * Millisecond)
     else if x = ''1h'' then Some Hour
     else if x = ''1s'' then Some Second
     else if x = ''0s'' then Some 0
     else None)"

subsection \<open>The change detector\<close>

text \<open>
  \<^verbatim>\<open>lastModified\<close>, a \<^verbatim>\<open>map[string]time.Time\<close>: keys are paths, \<^verbatim>\<open>len\<close> is the number
  of keys. The table is an association list that starts empty and is only written by
  \<open>AList.update\<close>, which overwrites the entry of a key it holds and appends a new one
  otherwise, so no key repeats and \<open>length\<close> is \<^verbatim>\<open>len\<close>. Time stamps are integers (only
  \<^verbatim>\<open>After\<close>, a strict comparison, is used).
\<close>

type_synonym table = "(string \<times> int) list"

definition After :: "int \<Rightarrow> int \<Rightarrow> bool" where
  "After t u = (t > u)"

text \<open>\<^verbatim>\<open>strings.HasSuffix\<close> and the loop of \<^verbatim>\<open>shouldWatch\<close> over \<^verbatim>\<open>config.WatchExts\<close>.\<close>

definition HasSuffix :: "string \<Rightarrow> string \<Rightarrow> bool" where
  "HasSuffix s suf = (length s \<ge> length suf \<and> drop (length s - length suf) s = suf)"

fun shouldWatch_exts :: "string list \<Rightarrow> string \<Rightarrow> bool" where
  "shouldWatch_exts [] filename = False"
| "shouldWatch_exts (ext # exts) filename =
    (if HasSuffix filename ext then True else shouldWatch_exts exts filename)"

definition shouldWatch :: "Config \<Rightarrow> string \<Rightarrow> bool" where
  "shouldWatch cfg filename = shouldWatch_exts (WatchExts cfg) filename"

text \<open>
  One call of the function handed to \<^verbatim>\<open>filepath.Walk\<close>: the path with the file's
  \<^verbatim>\<open>IsDir\<close> and \<^verbatim>\<open>ModTime\<close>, or the path with the error the walk met there.
\<close>

datatype walk_call =
    Visit string bool int
  | VisitErr string string

datatype error =
    WalkFailed string
  | ExceededMaxWatchers int
  | InvalidWatchInterval string

text \<open>
  \<^verbatim>\<open>filepath.Walk\<close> calls the function on the entries of the tree in order and stops at
  the first error it returns (the callbacks here never return \<^verbatim>\<open>SkipDir\<close>).
\<close>

fun Walk :: "('s \<Rightarrow> walk_call \<Rightarrow> error + 's) \<Rightarrow> 's \<Rightarrow> walk_call list \<Rightarrow> error + 's" where
  "Walk fn s [] = Inr s"
| "Walk fn s (c # cs) = (case fn s c of Inl e \<Rightarrow> Inl e | Inr s' \<Rightarrow> Walk fn s' cs)"

text \<open>The callback of the initial walk (lines 209 to 223).\<close>

fun initialVisit :: "Config \<Rightarrow> table \<Rightarrow> walk_call \<Rightarrow> error + table" where
  "initialVisit cfg lastModified (VisitErr path e) = Inl (WalkFailed e)"
| "initialVisit cfg lastModified (Visit path isDir modTime) =
    (if isDir \<or> \<not> shouldWatch cfg path then Inr lastModified
     else (let lastModified' = AList.update path modTime lastModified
           in if int (length lastModified') > MaxWatchers cfg
              then Inl (ExceededMaxWatchers (MaxWatchers cfg))
              else Inr lastModified'))"

text \<open>
  The callback of a tick's walk (lines 246 to 272), on the pair of the local
  \<^verbatim>\<open>changes\<close> and the table. The lookup \<^verbatim>\<open>lastMod, exists := lastModified[path]\<close> is the
  \<open>case\<close>: \<open>None\<close> is \<^verbatim>\<open>!exists\<close>.
\<close>

fun tickVisit :: "Config \<Rightarrow> bool \<times> table \<Rightarrow> walk_call \<Rightarrow> error + bool \<times> table" where
  "tickVisit cfg (changes, lastModified) (VisitErr path e) = Inl (WalkFailed e)"
| "tickVisit cfg (changes, lastModified) (Visit path isDir modTime) =
    (if isDir \<or> \<not> shouldWatch cfg path then Inr (changes, lastModified)
     else (case map_of lastModified path of
             None \<Rightarrow>
               (let lastModified' = AList.update path modTime lastModified
                in if int (length lastModified') \<ge> MaxWatchers cfg
                   then Inl (ExceededMaxWatchers (MaxWatchers cfg))
                   else Inr (True, lastModified'))
           | Some lastMod \<Rightarrow>
               if After modTime lastMod
               then Inr (True, AList.update path modTime lastModified)
               else Inr (changes, lastModified)))"

text \<open>
  What the detector sends: \<^verbatim>\<open>buildCh <- true\<close> or \<^verbatim>\<open>errCh <- err\<close>. One tick walks the
  tree with \<^verbatim>\<open>changes := false\<close>; an error is sent and the detector returns (no table
  is left), otherwise one notification is sent if \<^verbatim>\<open>changes\<close> is set.
\<close>

datatype emission = Changed | Fatal error

definition tick :: "Config \<Rightarrow> table \<Rightarrow> walk_call list \<Rightarrow> emission list \<times> table option" where
  "tick cfg lastModified w =
    (case Walk (tickVisit cfg) (False, lastModified) w of
       Inl e \<Rightarrow> ([Fatal e], None)
     | Inr (changes, lastModified') \<Rightarrow> ((if changes then [Changed] else []), Some lastModified'))"

text \<open>
  The \<^verbatim>\<open>for\<close>/\<^verbatim>\<open>select\<close> loop: one walk per tick of the ticker; the list of walks ends
  where \<^verbatim>\<open>ctx.Done()\<close> is selected.
\<close>

fun tickLoop :: "Config \<Rightarrow> table \<Rightarrow> walk_call list list \<Rightarrow> emission list" where
  "tickLoop cfg lastModified [] = []"
| "tickLoop cfg lastModified (w # ws) =
    (case tick cfg lastModified w of
       (sent, None) \<Rightarrow> sent
     | (sent, Some lastModified') \<Rightarrow> sent @ tickLoop cfg lastModified' ws)"

text \<open>
  \<^verbatim>\<open>watchFiles\<close>: the initial walk into an empty table, the parse of the interval, the
  ticker, the loop. \<^verbatim>\<open>time.NewTicker\<close> panics on a duration that is not positive.
\<close>

datatype fault = NilDereference | NonPositiveTicker

definition watchFiles ::
  "(string \<Rightarrow> int option) \<Rightarrow> Config \<Rightarrow> walk_call list \<Rightarrow> walk_call list list \<Rightarrow> fault + emission list"
where
  "watchFiles ParseDuration cfg initial ticks =
    (case Walk (initialVisit cfg) [] initial of
       Inl e \<Rightarrow> Inr [Fatal e]
     | Inr lastModified \<Rightarrow>
         (case ParseDuration (WatchInterval cfg) of
            None \<Rightarrow> Inr [Fatal (InvalidWatchInterval (WatchInterval cfg))]
          | Some duration \<Rightarrow>
              if duration \<le> 0 then Inl NonPositiveTicker
              else Inr (tickLoop cfg lastModified ticks)))"

text \<open>
  The spec's notion of a changed file, against the table as it stands when the tick
  starts: a watched file (not a directory, a watched suffix) that the table does not
  hold, or holds with an earlier time stamp.
\<close>

definition fileChanged :: "Config \<Rightarrow> table \<Rightarrow> walk_call \<Rightarrow> bool" where
  "fileChanged cfg tbl c =
    (case c of
       VisitErr path e \<Rightarrow> False
     | Visit path isDir modTime \<Rightarrow>
         \<not> isDir \<and> shouldWatch cfg path \<and>
         (case map_of tbl path of None \<Rightarrow> True | Some lastMod \<Rightarrow> lastMod < modTime))"

text \<open>The watched files a walk visits, in order: what \<^verbatim>\<open>lastModified[path] = ...\<close> can reach.\<close>

fun watchedPaths :: "Config \<Rightarrow> walk_call list \<Rightarrow> string list" where
  "watchedPaths cfg [] = []"
| "watchedPaths cfg (Visit path isDir modTime # w) =
    (if isDir \<or> \<not> shouldWatch cfg path then watchedPaths cfg w
     else path # watchedPaths cfg w)"
| "watchedPaths cfg (VisitErr path e # w) = watchedPaths cfg w"

definition paths :: "table \<Rightarrow> string set" where
  "paths tbl = fst ` set tbl"

subsection \<open>The change detector of the first revision\<close>

text \<open>
  The repository also holds \<^verbatim>\<open>watchFiles\<close> as it was in revision 0.0.1
  (\<^verbatim>\<open>src/unnamed/part_000\<close>, lines 183 to 258). There the function handed to
  \<^verbatim>\<open>filepath.Walk\<close> sends an error it is given on \<^verbatim>\<open>errCh\<close> itself and returns nil, so
  the walk goes on; the revision has no limit on the number of files. The state of a
  walk is extended by the errors sent so far, in order (\<^verbatim>\<open>errCh\<close> buffers one error: a
  further send waits until the coordinator has received the one before).
\<close>

fun initialVisit_v1 ::
  "Config \<Rightarrow> error list \<times> table \<Rightarrow> walk_call \<Rightarrow> error + error list \<times> table"
where
  "initialVisit_v1 cfg (sent, lastModified) (VisitErr path e) =
    Inr (sent @ [WalkFailed e], lastModified)"
| "initialVisit_v1 cfg (sent, lastModified) (Visit path isDir modTime) =
    (if isDir \<or> \<not> shouldWatch cfg path then Inr (sent, lastModified)
     else Inr (sent, AList.update path modTime lastModified))"

fun tickVisit_v1 ::
  "Config \<Rightarrow> error list \<times> bool \<times> table \<Rightarrow> walk_call \<Rightarrow> error + error list \<times> bool \<times> table"
where
  "tickVisit_v1 cfg (sent, changes, lastModified) (VisitErr path e) =
    Inr (sent @ [WalkFailed e], changes, lastModified)"
| "tickVisit_v1 cfg (sent, changes, lastModified) (Visit path isDir modTime) =
    (if isDir \<or> \<not> shouldWatch cfg path then Inr (sent, changes, lastModified)
     else (case map_of lastModified path of
             None \<Rightarrow> Inr (sent, True, AList.update path modTime lastModified)
           | Some lastMod \<Rightarrow>
               if After modTime lastMod
               then Inr (sent, True, AList.update path modTime lastModified)
               else Inr (sent, changes, lastModified)))"

text \<open>
  The initial walk with the test of its result (lines 189 to 206), and one tick (lines
  221 to 256): the errors go out during the walk, the notification after it.
\<close>

definition initialWalk_v1 :: "Config \<Rightarrow> walk_call list \<Rightarrow> emission list \<times> table option" where
  "initialWalk_v1 cfg w =
    (case Walk (initialVisit_v1 cfg) ([], []) w of
       Inl e \<Rightarrow> ([Fatal e], None)
     | Inr (sent, lastModified) \<Rightarrow> (map Fatal sent, Some lastModified))"

definition tick_v1 :: "Config \<Rightarrow> table \<Rightarrow> walk_call list \<Rightarrow> emission list \<times> table option" where
  "tick_v1 cfg lastModified w =
    (case Walk (tickVisit_v1 cfg) ([], False, lastModified) w of
       Inl e \<Rightarrow> ([Fatal e], None)
     | Inr (sent, changes, lastModified') \<Rightarrow>
         (map Fatal sent @ (if changes then [Changed] else []), Some lastModified'))"

fun tickLoop_v1 :: "Config \<Rightarrow> table \<Rightarrow> walk_call list list \<Rightarrow> emission list" where
  "tickLoop_v1 cfg lastModified [] = []"
| "tickLoop_v1 cfg lastModified (w # ws) =
    (case tick_v1 cfg lastModified w of
       (sent, None) \<Rightarrow> sent
     | (sent, Some lastModified') \<Rightarrow> sent @ tickLoop_v1 cfg lastModified' ws)"

subsection \<open>The process supervisor\<close>

text \<open>
  \<^verbatim>\<open>cmd *exec.Cmd\<close> is \<open>None\<close> for \<^verbatim>\<open>nil\<close>; of an \<^verbatim>\<open>exec.Cmd\<close> the model keeps the path
  and the field \<^verbatim>\<open>Process *os.Process\<close> (\<open>None\<close> for \<^verbatim>\<open>nil\<close>, else the process id).
  \<open>alive\<close> is the set of child processes that are running; \<open>trace\<close> records, in order,
  the lines printed and the commands run.
\<close>

record Cmd =
  Path :: string
  Process :: "nat option"

datatype line =
    Building
  | BuildFailed string
  | BuildSuccessful
  | RunningProgram
  | ErrorStarting string
  | ProgramIsRunning
  | StoppingPrevious
  | ErrorLine error
  | ShuttingDown

datatype effect =
    Print line
  | RunBuild string string
  | Start string
  | Kill nat
  | Wait nat

record sys =
  cmd :: "Cmd option"
  alive :: "nat set"
  trace :: "effect list"

definition println :: "line \<Rightarrow> sys \<Rightarrow> sys" where
  "println l s = s\<lparr>trace := trace s @ [Print l]\<rparr>"

text \<open>
  What the operating system answers to one call of \<^verbatim>\<open>buildAndRun\<close>: the error of
  \<^verbatim>\<open>buildCmd.Run()\<close> if the build fails, and the error of \<^verbatim>\<open>cmd.Start()\<close> or the id of
  the process it started.
\<close>

record outcome =
  buildErr :: "string option"
  startRes :: "string + nat"

definition buildAndRun :: "Config \<Rightarrow> outcome \<Rightarrow> sys \<Rightarrow> sys" where
  "buildAndRun cfg env s =
    (let s1 = println Building s;
         s2 = s1\<lparr>trace := trace s1 @ [RunBuild (BinaryName cfg) (MainFile cfg)]\<rparr>
     in case buildErr env of
          Some e \<Rightarrow> println (BuildFailed e) s2
        | None \<Rightarrow>
            (let s3 = println RunningProgram (println BuildSuccessful s2);
                 s4 = s3\<lparr>cmd := Some \<lparr>Path = ''./'' @ BinaryName cfg, Process = None\<rparr>\<rparr>;
                 s5 = s4\<lparr>trace := trace s4 @ [Start (''./'' @ BinaryName cfg)]\<rparr>
             in case startRes env of
                  Inl e \<Rightarrow> println (ErrorStarting e) s5
                | Inr pid \<Rightarrow>
                    println ProgramIsRunning
                      (s5\<lparr>cmd := Some \<lparr>Path = ''./'' @ BinaryName cfg, Process = Some pid\<rparr>,
                          alive := insert pid (alive s5)\<rparr>)))"

text \<open>
  The three operations on pointers in \<^verbatim>\<open>stopProcess\<close>. Reading a field of a nil
  \<^verbatim>\<open>*exec.Cmd\<close> and calling \<^verbatim>\<open>Kill\<close> on a nil \<^verbatim>\<open>*os.Process\<close> panic; \<^verbatim>\<open>Wait\<close> on a command
  that was not started returns an error, which the program ignores. A killed process
  stops running, and \<^verbatim>\<open>Wait\<close> returns once the process has exited. On a process
  that has exited both return an error, ignored as well.
\<close>

definition get_Process :: "Cmd option \<Rightarrow> fault + nat option" where
  "get_Process c = (case c of None \<Rightarrow> Inl NilDereference | Some c' \<Rightarrow> Inr (Process c'))"

definition Process_Kill :: "nat option \<Rightarrow> sys \<Rightarrow> fault + sys" where
  "Process_Kill p s =
    (case p of
       None \<Rightarrow> Inl NilDereference
     | Some pid \<Rightarrow> Inr (s\<lparr>alive := alive s - {pid}, trace := trace s @ [Kill pid]\<rparr>))"

definition Cmd_Wait :: "Cmd option \<Rightarrow> sys \<Rightarrow> fault + sys" where
  "Cmd_Wait c s =
    (case c of
       None \<Rightarrow> Inl NilDereference
     | Some c' \<Rightarrow>
         (case Process c' of
            None \<Rightarrow> Inr s
          | Some pid \<Rightarrow> Inr (s\<lparr>alive := alive s - {pid}, trace := trace s @ [Wait pid]\<rparr>)))"

text \<open>The body of the \<^verbatim>\<open>if\<close> in \<^verbatim>\<open>stopProcess\<close>, without its guard.\<close>

definition killAndWait :: "sys \<Rightarrow> fault + sys" where
  "killAndWait s =
    (let s1 = println StoppingPrevious s
     in case get_Process (cmd s1) of
          Inl f \<Rightarrow> Inl f
        | Inr p \<Rightarrow>
            (case Process_Kill p s1 of
               Inl f \<Rightarrow> Inl f
             | Inr s2 \<Rightarrow> Cmd_Wait (cmd s2) s2))"

text \<open>\<^verbatim>\<open>if cmd != nil && cmd.Process != nil { ... }\<close>; the second test is not evaluated on nil.\<close>

definition stopProcess :: "sys \<Rightarrow> fault + sys" where
  "stopProcess s =
    (case cmd s of
       None \<Rightarrow> Inr s
     | Some c \<Rightarrow> (case Process c of None \<Rightarrow> Inr s | Some p \<Rightarrow> killAndWait s))"

text \<open>The process \<^verbatim>\<open>stopProcess\<close> would kill, and the states in which no other one runs.\<close>

definition tracked :: "sys \<Rightarrow> nat option" where
  "tracked s = (case cmd s of None \<Rightarrow> None | Some c \<Rightarrow> Process c)"

definition supervised :: "sys \<Rightarrow> bool" where
  "supervised s = (alive s \<subseteq> set_option (tracked s))"

subsection \<open>The coordinator\<close>

text \<open>
  The events the \<^verbatim>\<open>select\<close> of \<^verbatim>\<open>main\<close> receives, in the order it receives them, from
  \<^verbatim>\<open>buildCh\<close>, \<^verbatim>\<open>errCh\<close> and \<^verbatim>\<open>done\<close>. The detector's emissions arrive as such events.
\<close>

datatype event = FromBuildCh | FromErrCh error | FromDone

fun toEvent :: "emission \<Rightarrow> event" where
  "toEvent Changed = FromBuildCh"
| "toEvent (Fatal e) = FromErrCh e"

text \<open>
  After the loop: \<^verbatim>\<open>cancel(); stopProcess(); os.Exit(exitCode)\<close>. A panic that nothing
  recovers ends a Go program with status 2.
\<close>

definition drain :: "int \<Rightarrow> sys \<Rightarrow> int option \<times> sys" where
  "drain exitCode s =
    (case stopProcess s of Inl f \<Rightarrow> (Some 2, s) | Inr s' \<Rightarrow> (Some exitCode, s'))"

text \<open>
  The loop of \<^verbatim>\<open>main\<close> (lines 97 to 117). \<open>envs n\<close> is the outcome of the \<open>n\<close>-th call of
  \<^verbatim>\<open>buildAndRun\<close>. The result is the exit status, or \<open>None\<close> while the loop waits for
  an event the list no longer has.
\<close>

fun eventLoop :: "Config \<Rightarrow> (nat \<Rightarrow> outcome) \<Rightarrow> nat \<Rightarrow> sys \<Rightarrow> event list \<Rightarrow> int option \<times> sys" where
  "eventLoop cfg envs n s [] = (None, s)"
| "eventLoop cfg envs n s (FromBuildCh # evs) =
    (case stopProcess s of
       Inl f \<Rightarrow> (Some 2, s)
     | Inr s1 \<Rightarrow> eventLoop cfg envs (Suc n) (buildAndRun cfg (envs n) s1) evs)"
| "eventLoop cfg envs n s (FromErrCh e # evs) = drain 1 (println (ErrorLine e) s)"
| "eventLoop cfg envs n s (FromDone # evs) = drain 0 (println ShuttingDown s)"

text \<open>
  \<^verbatim>\<open>main\<close> from the initial build on (lines 94 to 117), given the events its
  \<^verbatim>\<open>select\<close> receives: it starts with no command and no process.
\<close>

definition initial_sys :: sys where
  "initial_sys = \<lparr>cmd = None, alive = {}, trace = []\<rparr>"

definition coordinator :: "Config \<Rightarrow> (nat \<Rightarrow> outcome) \<Rightarrow> event list \<Rightarrow> int option \<times> sys" where
  "coordinator cfg envs evs = eventLoop cfg envs 1 (buildAndRun cfg (envs 0) initial_sys) evs"

text \<open>
  What the loop receives when the detector sends \<open>evs\<close>: all of it if no signal
  arrives (\<open>None\<close>), or its first \<open>k\<close> events and then the signal's \<^verbatim>\<open>done\<close>
  (\<open>Some k\<close>).
\<close>

definition received :: "nat option \<Rightarrow> event list \<Rightarrow> event list" where
  "received sig evs = (case sig of None \<Rightarrow> evs | Some k \<Rightarrow> take k evs @ [FromDone])"

text \<open>
  \<^verbatim>\<open>main\<close> after its flags (lines 76 to 117): \<^verbatim>\<open>loadConfig\<close> on the package's default
  configuration, the detector started as a goroutine (line 92), the initial build and
  the loop. A panic of the detector ends the whole program (\<open>Inl\<close>), unless the loop
  has received a signal before any event of the detector and has exited first.
  \<open>exitStatus\<close> is the status the program ends with: 2 after a panic.
\<close>

definition main_go ::
  "(string \<Rightarrow> int option) \<Rightarrow> config_file \<Rightarrow> walk_call list \<Rightarrow> walk_call list list \<Rightarrow>
   nat option \<Rightarrow> (nat \<Rightarrow> outcome) \<Rightarrow> fault + int option \<times> sys"
where
  "main_go ParseDuration file initial ticks sig envs =
    (let cfg = loadConfig ParseDuration file config
     in case watchFiles ParseDuration cfg initial ticks of
          Inl f \<Rightarrow> (if sig = Some 0 then Inr (coordinator cfg envs [FromDone]) else Inl f)
        | Inr sent \<Rightarrow> Inr (coordinator cfg envs (received sig (map toEvent sent))))"

fun exitStatus :: "fault + int option \<times> sys \<Rightarrow> int option" where
  "exitStatus (Inl f) = Some 2"
| "exitStatus (Inr (status, s)) = status"

section \<open>Properties of the configuration\<close>

lemma fillDefaults_keeps:
  "MaxWatchers (fillDefaults c) = MaxWatchers c \<and> WatchInterval (fillDefaults c) = WatchInterval c"
  by (simp add: fillDefaults_def Let_def)

lemma clampMaxWatchers_eq:
  "MaxWatchers (clampMaxWatchers c) =
     (if MaxWatchers c < 1 then 100 else if MaxWatchers c > 500 then 500 else MaxWatchers c) \<and>
   WatchInterval (clampMaxWatchers c) = WatchInterval c"
  by (simp add: clampMaxWatchers_def)

lemma clampWatchInterval_None:
  "P (WatchInterval c) = None \<Longrightarrow>
   clampWatchInterval P c = (c\<lparr>WatchInterval := ''1s''\<rparr>, Second)"
  by (simp add: clampWatchInterval_def Millisecond_def Second_def Hour_def)

lemma clampWatchInterval_empty:
  "WatchInterval c = [] \<Longrightarrow>
   clampWatchInterval P c = (c\<lparr>WatchInterval := ''1s''\<rparr>, Second)"
  by (simp add: clampWatchInterval_def Millisecond_def Second_def Hour_def split: option.split)

lemma clampWatchInterval_Some:
  "P (WatchInterval c) = Some d \<Longrightarrow> WatchInterval c \<noteq> [] \<Longrightarrow>
   clampWatchInterval P c =
     (if d < 500 * Millisecond then (c\<lparr>WatchInterval := ''500ms''\<rparr>, 500 * Millisecond)
      else if d > Hour then (c\<lparr>WatchInterval := ''1h''\<rparr>, Hour)
      else (c, d))"
  by (simp add: clampWatchInterval_def Millisecond_def Second_def Hour_def)

lemma validate_MaxWatchers:
  "MaxWatchers (fst (validate P c0)) =
   (if MaxWatchers c0 < 1 then 100 else if MaxWatchers c0 > 500 then 500 else MaxWatchers c0)"
proof -
  let ?c = "clampMaxWatchers (fillDefaults c0)"
  have "MaxWatchers (fst (clampWatchInterval P ?c)) = MaxWatchers ?c"
  proof (cases "P (WatchInterval ?c)")
    case None
    then show ?thesis by (simp add: clampWatchInterval_None)
  next
    case (Some d)
    then show ?thesis
      by (cases "WatchInterval ?c = []")
        (simp_all add: clampWatchInterval_empty clampWatchInterval_Some)
  qed
  then show ?thesis
    by (simp add: validate_def clampMaxWatchers_eq fillDefaults_keeps)
qed

lemma validate_WatchInterval:
  "WatchInterval (fst (validate P c0)) =
   (case P (WatchInterval c0) of
      None \<Rightarrow> ''1s''
    | Some d \<Rightarrow>
        if WatchInterval c0 = [] then ''1s''
        else if d < 500 * Millisecond then ''500ms''
        else if d > Hour then ''1h''
        else WatchInterval c0)"
proof -
  let ?c = "clampMaxWatchers (fillDefaults c0)"
  have w: "WatchInterval ?c = WatchInterval c0"
    by (simp add: clampMaxWatchers_eq fillDefaults_keeps)
  show ?thesis
  proof (cases "P (WatchInterval c0)")
    case None
    with w show ?thesis by (simp add: validate_def clampWatchInterval_None)
  next
    case (Some d)
    with w show ?thesis
      by (cases "WatchInterval c0 = []")
        (simp_all add: validate_def clampWatchInterval_empty clampWatchInterval_Some)
  qed
qed

lemma validate_duration:
  "500 * Millisecond \<le> snd (validate P c0) \<and> snd (validate P c0) \<le> Hour"
proof -
  let ?c = "clampMaxWatchers (fillDefaults c0)"
  show ?thesis
  proof (cases "P (WatchInterval ?c)")
    case None
    then show ?thesis
      by (simp add: validate_def clampWatchInterval_None Millisecond_def Second_def Hour_def)
  next
    case (Some d)
    then show ?thesis
      by (cases "WatchInterval ?c = []")
        (simp_all add: validate_def clampWatchInterval_empty clampWatchInterval_Some
          Millisecond_def Second_def Hour_def)
  qed
qed

section \<open>Properties of the change detector\<close>

lemma tickVisit_keeps_True:
  "tickVisit cfg (True, tbl) c = Inr (ch, tbl') \<Longrightarrow> ch"
  by (cases c) (auto split: if_splits option.splits simp: Let_def)

lemma Walk_tick_keeps_True:
  "Walk (tickVisit cfg) (True, tbl) w = Inr (ch, tbl') \<Longrightarrow> ch"
proof (induction w arbitrary: tbl)
  case Nil
  then show ?case by simp
next
  case (Cons c w)
  from Cons.prems obtain st where st: "tickVisit cfg (True, tbl) c = Inr st"
    and rest: "Walk (tickVisit cfg) st w = Inr (ch, tbl')"
    by (auto split: sum.splits)
  obtain b t where [simp]: "st = (b, t)" by (cases st)
  from st have b by (auto dest: tickVisit_keeps_True)
  with rest Cons.IH show ?case by simp
qed

lemma tickVisit_unchanged:
  "\<not> fileChanged cfg tbl c \<Longrightarrow> tickVisit cfg (ch, tbl) c = Inr st \<Longrightarrow> st = (ch, tbl)"
  by (cases c) (auto simp: fileChanged_def After_def Let_def split: if_splits option.splits)

lemma tickVisit_changed:
  "fileChanged cfg tbl c \<Longrightarrow> tickVisit cfg (ch, tbl) c = Inr (ch', tbl') \<Longrightarrow> ch'"
  by (cases c) (auto simp: fileChanged_def After_def Let_def split: if_splits option.splits)

lemma Walk_tick_changes:
  "Walk (tickVisit cfg) (ch, tbl) w = Inr (ch', tbl') \<Longrightarrow>
   ch' = (ch \<or> (\<exists>c\<in>set w. fileChanged cfg tbl c))"
proof (induction w arbitrary: ch tbl)
  case Nil
  then show ?case by simp
next
  case (Cons c w)
  from Cons.prems obtain b t where st: "tickVisit cfg (ch, tbl) c = Inr (b, t)"
    and rest: "Walk (tickVisit cfg) (b, t) w = Inr (ch', tbl')"
    by (auto split: sum.splits)
  show ?case
  proof (cases "fileChanged cfg tbl c")
    case True
    from True st have b by (rule tickVisit_changed)
    with rest have ch' by (auto dest: Walk_tick_keeps_True)
    with True show ?thesis by simp
  next
    case False
    from False st have "(b, t) = (ch, tbl)" by (rule tickVisit_unchanged)
    with rest Cons.IH False show ?thesis by simp
  qed
qed


lemma tickVisit_flag:
  "tickVisit cfg (ch, tbl) c = Inr (ch', tbl') \<Longrightarrow> ch' = (ch \<or> fileChanged cfg tbl c)"
  by (cases c) (auto simp: fileChanged_def After_def Let_def split: if_splits option.splits)

lemma paths_update: "paths (AList.update k v tbl) = insert k (paths tbl)"
  by (simp add: paths_def AList.dom_update)

lemma map_of_Some_paths: "map_of tbl p = Some v \<Longrightarrow> p \<in> paths tbl"
  by (force simp: paths_def dest: map_of_SomeD)

lemma watchedPaths_Cons: "watchedPaths cfg (c # w) = watchedPaths cfg [c] @ watchedPaths cfg w"
  by (cases c) auto

lemma tickVisit_paths:
  "tickVisit cfg (ch, tbl) c = Inr (ch', tbl') \<Longrightarrow>
   paths tbl' = paths tbl \<union> set (watchedPaths cfg [c])"
  by (cases c)
    (auto simp: Let_def paths_update split: if_splits option.splits dest: map_of_Some_paths)

lemma initialVisit_paths:
  "initialVisit cfg tbl c = Inr tbl' \<Longrightarrow> paths tbl' = paths tbl \<union> set (watchedPaths cfg [c])"
  by (cases c) (auto simp: Let_def paths_update split: if_splits)

lemma tickVisit_stale:
  "tickVisit cfg (ch, tbl) c = Inr (ch', tbl') \<Longrightarrow> p \<notin> set (watchedPaths cfg [c]) \<Longrightarrow>
   map_of tbl' p = map_of tbl p"
  by (cases c) (auto simp: Let_def AList.update_conv' split: if_splits option.splits)

lemma Walk_tick_paths:
  "Walk (tickVisit cfg) (ch, tbl) w = Inr (ch', tbl') \<Longrightarrow>
   paths tbl' = paths tbl \<union> set (watchedPaths cfg w)"
proof (induction w arbitrary: ch tbl)
  case Nil
  then show ?case by simp
next
  case (Cons c w)
  from Cons.prems obtain b t where st: "tickVisit cfg (ch, tbl) c = Inr (b, t)"
    and rest: "Walk (tickVisit cfg) (b, t) w = Inr (ch', tbl')"
    by (auto split: sum.splits)
  from rest have "paths tbl' = paths t \<union> set (watchedPaths cfg w)" by (rule Cons.IH)
  moreover from st have "paths t = paths tbl \<union> set (watchedPaths cfg [c])"
    by (rule tickVisit_paths)
  ultimately show ?case
    using watchedPaths_Cons [of cfg c w] by auto
qed

lemma Walk_initial_paths:
  "Walk (initialVisit cfg) tbl w = Inr tbl' \<Longrightarrow>
   paths tbl' = paths tbl \<union> set (watchedPaths cfg w)"
proof (induction w arbitrary: tbl)
  case Nil
  then show ?case by simp
next
  case (Cons c w)
  from Cons.prems obtain t where st: "initialVisit cfg tbl c = Inr t"
    and rest: "Walk (initialVisit cfg) t w = Inr tbl'"
    by (auto split: sum.splits)
  from rest have "paths tbl' = paths t \<union> set (watchedPaths cfg w)" by (rule Cons.IH)
  moreover from st have "paths t = paths tbl \<union> set (watchedPaths cfg [c])"
    by (rule initialVisit_paths)
  ultimately show ?case
    using watchedPaths_Cons [of cfg c w] by auto
qed

lemma Walk_tick_stale:
  "Walk (tickVisit cfg) (ch, tbl) w = Inr (ch', tbl') \<Longrightarrow> p \<notin> set (watchedPaths cfg w) \<Longrightarrow>
   map_of tbl' p = map_of tbl p"
proof (induction w arbitrary: ch tbl)
  case Nil
  then show ?case by simp
next
  case (Cons c w)
  from Cons.prems(1) obtain b t where st: "tickVisit cfg (ch, tbl) c = Inr (b, t)"
    and rest: "Walk (tickVisit cfg) (b, t) w = Inr (ch', tbl')"
    by (auto split: sum.splits)
  from Cons.prems(2) have here: "p \<notin> set (watchedPaths cfg [c])"
    and later: "p \<notin> set (watchedPaths cfg w)"
    using watchedPaths_Cons [of cfg c w] by auto
  from rest later have "map_of tbl' p = map_of t p" by (rule Cons.IH)
  moreover from st here have "map_of t p = map_of tbl p" by (rule tickVisit_stale)
  ultimately show ?case by simp
qed

lemma Walk_append_error:
  "Walk fn s pre = Inr s' \<Longrightarrow> fn s' c = Inl e \<Longrightarrow> Walk fn s (pre @ c # post) = Inl e"
  by (induction pre arbitrary: s) (auto split: sum.splits)

lemma Walk_tick_VisitErr:
  "VisitErr path m \<in> set w \<Longrightarrow> \<exists>e. Walk (tickVisit cfg) st w = Inl e"
proof (induction w arbitrary: st)
  case Nil
  then show ?case by simp
next
  case (Cons c w)
  obtain ch tbl where [simp]: "st = (ch, tbl)" by (cases st)
  show ?case
  proof (cases "tickVisit cfg st c")
    case (Inl e)
    then show ?thesis by simp
  next
    case (Inr st')
    then have "c \<noteq> VisitErr path m" by auto
    with Cons.prems have "VisitErr path m \<in> set w" by simp
    then have "\<exists>e. Walk (tickVisit cfg) st' w = Inl e" by (rule Cons.IH)
    with Inr show ?thesis by simp
  qed
qed

lemma Walk_initial_VisitErr:
  "VisitErr path m \<in> set w \<Longrightarrow> \<exists>e. Walk (initialVisit cfg) tbl w = Inl e"
proof (induction w arbitrary: tbl)
  case Nil
  then show ?case by simp
next
  case (Cons c w)
  show ?case
  proof (cases "initialVisit cfg tbl c")
    case (Inl e)
    then show ?thesis by simp
  next
    case (Inr tbl')
    then have "c \<noteq> VisitErr path m" by auto
    with Cons.prems have "VisitErr path m \<in> set w" by simp
    then have "\<exists>e. Walk (initialVisit cfg) tbl' w = Inl e" by (rule Cons.IH)
    with Inr show ?thesis by simp
  qed
qed

lemma length_distinct_paths:
  "distinct (map fst tbl) \<Longrightarrow> length tbl = card (paths tbl)"
proof -
  assume d: "distinct (map fst tbl)"
  have "paths tbl = set (map fst tbl)" by (simp add: paths_def)
  with d show ?thesis by (metis distinct_card length_map)
qed

lemma initialVisit_distinct:
  "distinct (map fst tbl) \<Longrightarrow> initialVisit cfg tbl c = Inr tbl' \<Longrightarrow> distinct (map fst tbl')"
  by (cases c) (auto simp: Let_def AList.distinct_update split: if_splits)

lemma initialVisit_error:
  "initialVisit cfg tbl (Visit path isDir modTime) = Inl e \<Longrightarrow>
   e = ExceededMaxWatchers (MaxWatchers cfg) \<and> \<not> isDir \<and> shouldWatch cfg path \<and>
   MaxWatchers cfg < int (length (AList.update path modTime tbl))"
  by (auto simp: Let_def split: if_splits)

lemma initialVisit_ok_length:
  "initialVisit cfg tbl c = Inr tbl' \<Longrightarrow> int (length tbl) \<le> MaxWatchers cfg \<Longrightarrow>
   int (length tbl') \<le> MaxWatchers cfg"
  by (cases c) (auto simp: Let_def split: if_splits)

lemma Walk_initial_limit:
  assumes "distinct (map fst tbl)" and "int (length tbl) \<le> MaxWatchers cfg"
    and "\<forall>path m. VisitErr path m \<notin> set w"
  shows "(\<exists>tbl'. Walk (initialVisit cfg) tbl w = Inr tbl' \<and>
            int (card (paths tbl \<union> set (watchedPaths cfg w))) \<le> MaxWatchers cfg) \<or>
         (Walk (initialVisit cfg) tbl w = Inl (ExceededMaxWatchers (MaxWatchers cfg)) \<and>
            MaxWatchers cfg < int (card (paths tbl \<union> set (watchedPaths cfg w))))"
  using assms
proof (induction w arbitrary: tbl)
  case Nil
  then show ?case by (simp add: length_distinct_paths)
next
  case (Cons c w)
  from Cons.prems(3) obtain path isDir modTime where c: "c = Visit path isDir modTime"
    by (cases c) auto
  from Cons.prems(3) have rest: "\<forall>path m. VisitErr path m \<notin> set w" by simp
  have parts: "paths tbl \<union> set (watchedPaths cfg (c # w)) =
      (paths tbl \<union> set (watchedPaths cfg [c])) \<union> set (watchedPaths cfg w)"
    by (simp add: watchedPaths_Cons [of cfg c w] Un_assoc)
  show ?case
  proof (cases "initialVisit cfg tbl c")
    case (Inl e)
    note err = initialVisit_error [OF Inl [unfolded c]]
    from err have e: "e = ExceededMaxWatchers (MaxWatchers cfg)" by (rule conjunct1)
    from err have w: "\<not> isDir" "shouldWatch cfg path" by blast+
    from err have over: "MaxWatchers cfg < int (length (AList.update path modTime tbl))"
      by blast
    from Cons.prems(1) have "distinct (map fst (AList.update path modTime tbl))"
      by (rule AList.distinct_update)
    then have "length (AList.update path modTime tbl) = card (paths (AList.update path modTime tbl))"
      by (rule length_distinct_paths)
    also have "\<dots> = card (paths tbl \<union> set (watchedPaths cfg [c]))"
      using c w by (simp add: paths_update)
    also have "\<dots> \<le> card (paths tbl \<union> set (watchedPaths cfg (c # w)))"
      unfolding parts by (rule card_mono) (auto simp: paths_def)
    finally have "MaxWatchers cfg < int (card (paths tbl \<union> set (watchedPaths cfg (c # w))))"
      using over by linarith
    with Inl e show ?thesis by simp
  next
    case (Inr t)
    from Cons.prems(1) Inr have d: "distinct (map fst t)" by (rule initialVisit_distinct)
    from Inr Cons.prems(2) have l: "int (length t) \<le> MaxWatchers cfg"
      by (rule initialVisit_ok_length)
    from Inr have p: "paths t = paths tbl \<union> set (watchedPaths cfg [c])"
      by (rule initialVisit_paths)
    from Cons.IH [OF d l rest] Inr show ?thesis
      unfolding parts p by simp
  qed
qed

section \<open>Properties of the supervisor and the coordinator\<close>

lemma killAndWait_tracked:
  "tracked s = Some p \<Longrightarrow>
   killAndWait s =
     Inr (s\<lparr>alive := alive s - {p}, trace := trace s @ [Print StoppingPrevious, Kill p, Wait p]\<rparr>)"
  by (auto simp: tracked_def killAndWait_def println_def get_Process_def Process_Kill_def
      Cmd_Wait_def split: option.splits)

lemma killAndWait_untracked: "tracked s = None \<Longrightarrow> killAndWait s = Inl NilDereference"
  by (auto simp: tracked_def killAndWait_def println_def get_Process_def Process_Kill_def
      split: option.splits)

lemma stopProcess_eq:
  "stopProcess s =
     Inr (case tracked s of
            None \<Rightarrow> s
          | Some p \<Rightarrow>
              s\<lparr>alive := alive s - {p},
                trace := trace s @ [Print StoppingPrevious, Kill p, Wait p]\<rparr>)"
proof (cases "tracked s")
  case None
  then show ?thesis by (auto simp: stopProcess_def tracked_def split: option.splits)
next
  case (Some p)
  then have "stopProcess s = killAndWait s"
    by (auto simp: stopProcess_def tracked_def split: option.splits)
  with Some show ?thesis by (simp add: killAndWait_tracked)
qed

lemma stopProcess_total: "\<exists>s'. stopProcess s = Inr s'"
  by (simp add: stopProcess_eq)

lemma stopProcess_result:
  "stopProcess s = Inr s' \<Longrightarrow>
   cmd s' = cmd s \<and> tracked s' = tracked s \<and> alive s' = alive s - set_option (tracked s)"
  by (auto simp: stopProcess_eq tracked_def split: option.splits)

lemma drain_exit: "fst (drain code s) = Some code"
  by (simp add: drain_def stopProcess_eq)

lemma eventLoop_replicate:
  "fst (eventLoop cfg envs n s (replicate k FromBuildCh @ evs)) =
   fst (eventLoop cfg envs (n + k) (snd (eventLoop cfg envs n s (replicate k FromBuildCh))) evs)"
proof (induction k arbitrary: n s)
  case 0
  then show ?case by simp
next
  case (Suc k)
  obtain s1 where s1: "stopProcess s = Inr s1" using stopProcess_total by blast
  then show ?case using Suc [of "Suc n" "buildAndRun cfg (envs n) s1"] by simp
qed

lemma eventLoop_exit:
  "fst (eventLoop cfg envs n s evs) =
   (case dropWhile (\<lambda>ev. ev = FromBuildCh) evs of
      [] \<Rightarrow> None
    | FromBuildCh # rest \<Rightarrow> None
    | FromErrCh e # rest \<Rightarrow> Some 1
    | FromDone # rest \<Rightarrow> Some 0)"
proof (induction evs arbitrary: n s)
  case Nil
  then show ?case by simp
next
  case (Cons ev evs)
  obtain s1 where s1: "stopProcess s = Inr s1" using stopProcess_total by blast
  show ?case
  proof (cases ev)
    case FromBuildCh
    with s1 Cons [of "Suc n" "buildAndRun cfg (envs n) s1"] show ?thesis by simp
  next
    case (FromErrCh e)
    then show ?thesis by (simp add: drain_exit)
  next
    case FromDone
    then show ?thesis by (simp add: drain_exit)
  qed
qed

lemma dropWhile_rebuilds:
  "dropWhile (\<lambda>ev. ev = FromBuildCh) evs = ev # rest \<longleftrightarrow>
   ev \<noteq> FromBuildCh \<and> (\<exists>k. evs = replicate k FromBuildCh @ ev # rest)"
proof (induction evs)
  case Nil
  then show ?case by simp
next
  case (Cons a evs)
  show ?case
  proof (cases "a = FromBuildCh")
    case True
    have "(\<exists>k. a # evs = replicate k FromBuildCh @ ev # rest) \<and> ev \<noteq> FromBuildCh \<longleftrightarrow>
          (\<exists>k. evs = replicate k FromBuildCh @ ev # rest) \<and> ev \<noteq> FromBuildCh"
    proof (intro iffI conjI)
      assume h: "(\<exists>k. a # evs = replicate k FromBuildCh @ ev # rest) \<and> ev \<noteq> FromBuildCh"
      then obtain k where k: "a # evs = replicate k FromBuildCh @ ev # rest" by blast
      from h True k show "\<exists>k. evs = replicate k FromBuildCh @ ev # rest"
        by (cases k) auto
      from h show "ev \<noteq> FromBuildCh" by simp
    next
      assume h: "(\<exists>k. evs = replicate k FromBuildCh @ ev # rest) \<and> ev \<noteq> FromBuildCh"
      then obtain k where "evs = replicate k FromBuildCh @ ev # rest" by blast
      with True have "a # evs = replicate (Suc k) FromBuildCh @ ev # rest" by simp
      then show "\<exists>k. a # evs = replicate k FromBuildCh @ ev # rest" by blast
      from h show "ev \<noteq> FromBuildCh" by simp
    qed
    with True Cons show ?thesis by auto
  next
    case False
    have "(\<exists>k. a # evs = replicate k FromBuildCh @ ev # rest) \<longleftrightarrow> a = ev \<and> evs = rest"
    proof
      assume "\<exists>k. a # evs = replicate k FromBuildCh @ ev # rest"
      then obtain k where k: "a # evs = replicate k FromBuildCh @ ev # rest" by blast
      with False show "a = ev \<and> evs = rest" by (cases k) auto
    next
      assume "a = ev \<and> evs = rest"
      then have "a # evs = replicate 0 FromBuildCh @ ev # rest" by simp
      then show "\<exists>k. a # evs = replicate k FromBuildCh @ ev # rest" by blast
    qed
    with False show ?thesis by auto
  qed
qed


lemma buildAndRun_start_failed:
  "buildErr env = None \<Longrightarrow> startRes env = Inl e \<Longrightarrow>
   buildAndRun cfg env s =
     s\<lparr>cmd := Some \<lparr>Path = ''./'' @ BinaryName cfg, Process = None\<rparr>,
       trace := trace s @
        [Print Building, RunBuild (BinaryName cfg) (MainFile cfg), Print BuildSuccessful,
         Print RunningProgram, Start (''./'' @ BinaryName cfg), Print (ErrorStarting e)]\<rparr>"
  by (simp add: buildAndRun_def println_def)

lemma buildAndRun_supervised:
  "alive s = {} \<Longrightarrow> supervised (buildAndRun cfg env s)"
  by (auto simp: buildAndRun_def println_def supervised_def tracked_def Let_def
      split: option.splits sum.splits)

lemma stopProcess_clears:
  "supervised s \<Longrightarrow> stopProcess s = Inr s' \<Longrightarrow> alive s' = {} \<and> supervised s'"
  using stopProcess_result [of s s'] by (auto simp: supervised_def)

lemma println_supervised: "supervised (println l s) = supervised s"
  by (simp add: println_def supervised_def tracked_def)

lemma drain_supervised:
  "supervised s \<Longrightarrow> supervised (snd (drain code s)) \<and> alive (snd (drain code s)) = {}"
proof -
  assume s: "supervised s"
  obtain s' where s': "stopProcess s = Inr s'" using stopProcess_total by blast
  from s s' have "alive s' = {} \<and> supervised s'" by (rule stopProcess_clears)
  with s' show ?thesis by (simp add: drain_def)
qed

lemma eventLoop_supervised:
  "supervised s \<Longrightarrow>
   supervised (snd (eventLoop cfg envs n s evs)) \<and>
   (fst (eventLoop cfg envs n s evs) \<noteq> None \<longrightarrow> alive (snd (eventLoop cfg envs n s evs)) = {})"
proof (induction evs arbitrary: n s)
  case Nil
  then show ?case by simp
next
  case (Cons ev evs)
  show ?case
  proof (cases ev)
    case FromBuildCh
    obtain s1 where s1: "stopProcess s = Inr s1" using stopProcess_total by blast
    from Cons.prems s1 have "alive s1 = {}" by (auto dest: stopProcess_clears)
    then have "supervised (buildAndRun cfg (envs n) s1)" by (rule buildAndRun_supervised)
    then have "supervised (snd (eventLoop cfg envs (Suc n) (buildAndRun cfg (envs n) s1) evs)) \<and>
      (fst (eventLoop cfg envs (Suc n) (buildAndRun cfg (envs n) s1) evs) \<noteq> None \<longrightarrow>
       alive (snd (eventLoop cfg envs (Suc n) (buildAndRun cfg (envs n) s1) evs)) = {})"
      by (rule Cons.IH)
    with FromBuildCh s1 show ?thesis by simp
  next
    case (FromErrCh e)
    from Cons.prems have "supervised (println (ErrorLine e) s)" by (simp add: println_supervised)
    then have "supervised (snd (drain 1 (println (ErrorLine e) s))) \<and>
        alive (snd (drain 1 (println (ErrorLine e) s))) = {}"
      by (rule drain_supervised)
    with FromErrCh show ?thesis by simp
  next
    case FromDone
    from Cons.prems have "supervised (println ShuttingDown s)" by (simp add: println_supervised)
    then have "supervised (snd (drain 0 (println ShuttingDown s))) \<and>
        alive (snd (drain 0 (println ShuttingDown s))) = {}"
      by (rule drain_supervised)
    with FromDone show ?thesis by simp
  qed
qed

lemma exitStatus_Inr: "exitStatus (Inr p) = fst p"
  by (cases p) simp

lemma coordinator_status_range: "fst (coordinator cfg envs evs) \<in> {None, Some 0, Some 1}"
  by (simp add: coordinator_def eventLoop_exit split: list.splits event.splits)

lemma tickVisit_v1_total:
  "\<exists>sent' ch' tbl'. tickVisit_v1 cfg (sent, ch, tbl) c = Inr (sent', ch', tbl')"
  by (cases c) (auto split: option.splits)

lemma Walk_tick_v1_total:
  "\<exists>sent' ch' tbl'. Walk (tickVisit_v1 cfg) (sent, ch, tbl) w = Inr (sent', ch', tbl')"
proof (induction w arbitrary: sent ch tbl)
  case Nil
  then show ?case by simp
next
  case (Cons c w)
  obtain s1 c1 t1 where "tickVisit_v1 cfg (sent, ch, tbl) c = Inr (s1, c1, t1)"
    using tickVisit_v1_total by blast
  with Cons [of s1 c1 t1] show ?case by simp
qed

section \<open>The claims\<close>

text \<open>
  C1 (amended). On a tick, a visited file sets \<^verbatim>\<open>changes\<close> exactly when it is a watched
  file that the table does not hold or holds with an earlier time stamp. A tick whose
  walk ends without error sends exactly one notification if at least one visited file
  changed, however many did, and none if no file changed. A tick whose walk fails sends
  the error and no notification.
\<close>

theorem C1_tick_notification:
  "(tickVisit cfg (ch, tbl) c = Inr (ch', t) \<longrightarrow> ch' = (ch \<or> fileChanged cfg tbl c)) \<and>
   (Walk (tickVisit cfg) (False, tbl) w = Inr (changes, tbl') \<longrightarrow>
      changes = (\<exists>c\<in>set w. fileChanged cfg tbl c) \<and>
      tick cfg tbl w =
        ((if \<exists>c\<in>set w. fileChanged cfg tbl c then [Changed] else []), Some tbl')) \<and>
   (Walk (tickVisit cfg) (False, tbl) w = Inl e \<longrightarrow> tick cfg tbl w = ([Fatal e], None))"
proof (intro conjI impI)
  assume "tickVisit cfg (ch, tbl) c = Inr (ch', t)"
  then show "ch' = (ch \<or> fileChanged cfg tbl c)" by (rule tickVisit_flag)
next
  assume ok: "Walk (tickVisit cfg) (False, tbl) w = Inr (changes, tbl')"
  from Walk_tick_changes [OF ok] show flag: "changes = (\<exists>c\<in>set w. fileChanged cfg tbl c)"
    by simp
  from ok flag show "tick cfg tbl w =
      ((if \<exists>c\<in>set w. fileChanged cfg tbl c then [Changed] else []), Some tbl')"
    by (simp add: tick_def)
next
  assume "Walk (tickVisit cfg) (False, tbl) w = Inl e"
  then show "tick cfg tbl w = ([Fatal e], None)" by (simp add: tick_def)
qed

theorem C1_tick_notification_witness:
  "Walk (tickVisit config) (False, [(''a.go'', 1)])
     [Visit ''a.go'' False 2, Visit ''b.go'' False 5, Visit ''notes.txt'' False 9] =
     Inr (True, [(''a.go'', 2), (''b.go'', 5)]) \<and>
   fileChanged config [(''a.go'', 1)] (Visit ''a.go'' False 2) \<and>
   fileChanged config [(''a.go'', 1)] (Visit ''b.go'' False 5) \<and>
   tick config [(''a.go'', 1)]
     [Visit ''a.go'' False 2, Visit ''b.go'' False 5, Visit ''notes.txt'' False 9] =
     ([Changed], Some [(''a.go'', 2), (''b.go'', 5)])"
proof -
  have w: "Walk (tickVisit config) (False, [(''a.go'', 1)])
     [Visit ''a.go'' False 2, Visit ''b.go'' False 5, Visit ''notes.txt'' False 9] =
     Inr (True, [(''a.go'', 2), (''b.go'', 5)])"
    by (simp add: config_def shouldWatch_def HasSuffix_def After_def)
  have a: "fileChanged config [(''a.go'', 1)] (Visit ''a.go'' False 2)"
    by (simp add: fileChanged_def config_def shouldWatch_def HasSuffix_def)
  have b: "fileChanged config [(''a.go'', 1)] (Visit ''b.go'' False 5)"
    by (simp add: fileChanged_def config_def shouldWatch_def HasSuffix_def)
  from C1_tick_notification [of config False "[(''a.go'', 1)]" "Visit ''a.go'' False 2" True
      "[(''a.go'', 2)]"
      "[Visit ''a.go'' False 2, Visit ''b.go'' False 5, Visit ''notes.txt'' False 9]"
      True "[(''a.go'', 2), (''b.go'', 5)]"] w a b
  show ?thesis by simp
qed

theorem C1_counterexample:
  "fileChanged config [(''a.go'', 1)] (Visit ''a.go'' False 2) \<and>
   tick config [(''a.go'', 1)] [Visit ''a.go'' False 2, VisitErr ''vendor'' ''permission denied''] =
     ([Fatal (WalkFailed ''permission denied'')], None) \<and>
   count_list (fst (tick config [(''a.go'', 1)]
     [Visit ''a.go'' False 2, VisitErr ''vendor'' ''permission denied''])) Changed = 0"
  by (simp add: fileChanged_def tick_def config_def shouldWatch_def HasSuffix_def After_def)



text \<open>
  C3. With \<^verbatim>\<open>max_watchers\<close> 2, an initial walk over two watched files succeeds, but a
  tick that finds the second watched file only then fails with the limit error: the
  test after the insertion is \<^verbatim>\<open>>=\<close> on a tick and \<^verbatim>\<open>>\<close> on the initial walk.
\<close>

theorem C3_limit_reached_mid_watch:
  "Walk (initialVisit (config\<lparr>MaxWatchers := 2\<rparr>)) []
     [Visit ''a.go'' False 1, Visit ''b.go'' False 1] = Inr [(''a.go'', 1), (''b.go'', 1)] \<and>
   Walk (initialVisit (config\<lparr>MaxWatchers := 2\<rparr>)) [] [Visit ''a.go'' False 1] =
     Inr [(''a.go'', 1)] \<and>
   tick (config\<lparr>MaxWatchers := 2\<rparr>) [(''a.go'', 1)]
     [Visit ''a.go'' False 1, Visit ''b.go'' False 1] =
     ([Fatal (ExceededMaxWatchers 2)], None)"
  by (simp add: tick_def config_def shouldWatch_def HasSuffix_def After_def)

text \<open>
  C4. In the first revision a walk error does not end the detector. A tick that meets
  an unreadable directory and then a touched file sends the error and, after the walk,
  a notification as well; it keeps its table, and the next tick is made. In
  \<^verbatim>\<open>main.go\<close> the same tick sends the error alone and ends the detector.
\<close>

theorem C4_first_revision_walk_goes_on:
  "tick_v1 config [(''a.go'', 1)]
     [VisitErr ''vendor'' ''permission denied'', Visit ''a.go'' False 2] =
     ([Fatal (WalkFailed ''permission denied''), Changed], Some [(''a.go'', 2)]) \<and>
   tickLoop_v1 config [(''a.go'', 1)]
     [[VisitErr ''vendor'' ''permission denied'', Visit ''a.go'' False 2],
      [Visit ''a.go'' False 3]] =
     [Fatal (WalkFailed ''permission denied''), Changed, Changed] \<and>
   initialWalk_v1 config [VisitErr ''vendor'' ''permission denied'', Visit ''a.go'' False 1] =
     ([Fatal (WalkFailed ''permission denied'')], Some [(''a.go'', 1)]) \<and>
   tick config [(''a.go'', 1)]
     [VisitErr ''vendor'' ''permission denied'', Visit ''a.go'' False 2] =
     ([Fatal (WalkFailed ''permission denied'')], None)"
  by (simp add: tick_v1_def initialWalk_v1_def tick_def config_def shouldWatch_def
      HasSuffix_def After_def)

text \<open>
  C5. A configuration file whose decoding fails after \<^verbatim>\<open>watch_interval\<close> was stored as
  \<^verbatim>\<open>0s\<close> leaves that interval in the configuration, \<^verbatim>\<open>time.NewTicker\<close> panics in the
  detector, and the program ends with status 2: no shutdown signal and no error of the
  detector has arrived, and the status is neither 0 nor 1.
\<close>

theorem C5_ticker_panic_exit_status:
  "loadConfig parseScenario
     (Data (\<lambda>c. (c\<lparr>WatchInterval := ''0s''\<rparr>,
                 Some ''json: cannot unmarshal number into Go struct field Config.main_file''))) config =
     config\<lparr>WatchInterval := ''0s''\<rparr> \<and>
   watchFiles parseScenario (config\<lparr>WatchInterval := ''0s''\<rparr>) [Visit ''main.go'' False 1] [] =
     Inl NonPositiveTicker \<and>
   exitStatus (main_go parseScenario
     (Data (\<lambda>c. (c\<lparr>WatchInterval := ''0s''\<rparr>,
                 Some ''json: cannot unmarshal number into Go struct field Config.main_file'')))
     [Visit ''main.go'' False 1] [] None (\<lambda>k. \<lparr>buildErr = None, startRes = Inr k\<rparr>)) = Some 2"
  by (simp add: main_go_def watchFiles_def parseScenario_def config_def shouldWatch_def
      HasSuffix_def)

text \<open>
  C6. With no process tracked (\<^verbatim>\<open>cmd\<close> nil, or its \<^verbatim>\<open>Process\<close> nil) \<^verbatim>\<open>stopProcess\<close> changes
  nothing and prints nothing. Called twice in a row it succeeds both times and the
  second call leaves the command and the running processes as the first did: the
  tracked process runs after neither, and no process at all where only the tracked one
  could run.
\<close>

theorem C6_stopProcess_noop_idempotent:
  "(tracked s = None \<longrightarrow> stopProcess s = Inr s) \<and>
   (\<exists>s1 s2. stopProcess s = Inr s1 \<and> stopProcess s1 = Inr s2 \<and>
      cmd s1 = cmd s \<and> cmd s2 = cmd s1 \<and> alive s2 = alive s1 \<and>
      (\<forall>p. tracked s = Some p \<longrightarrow> p \<notin> alive s1 \<and> p \<notin> alive s2) \<and>
      (supervised s \<longrightarrow> alive s1 = {} \<and> alive s2 = {}))"
proof
  show "tracked s = None \<longrightarrow> stopProcess s = Inr s" by (simp add: stopProcess_eq)
next
  obtain s1 where s1: "stopProcess s = Inr s1" using stopProcess_total by blast
  obtain s2 where s2: "stopProcess s1 = Inr s2" using stopProcess_total by blast
  note r1 = stopProcess_result [OF s1] and r2 = stopProcess_result [OF s2]
  from r1 r2 have "cmd s1 = cmd s" "cmd s2 = cmd s1" "alive s2 = alive s1"
    "\<forall>p. tracked s = Some p \<longrightarrow> p \<notin> alive s1 \<and> p \<notin> alive s2"
    "supervised s \<longrightarrow> alive s1 = {} \<and> alive s2 = {}"
    by (auto simp: supervised_def)
  with s1 s2 show "\<exists>s1 s2. stopProcess s = Inr s1 \<and> stopProcess s1 = Inr s2 \<and>
      cmd s1 = cmd s \<and> cmd s2 = cmd s1 \<and> alive s2 = alive s1 \<and>
      (\<forall>p. tracked s = Some p \<longrightarrow> p \<notin> alive s1 \<and> p \<notin> alive s2) \<and>
      (supervised s \<longrightarrow> alive s1 = {} \<and> alive s2 = {})"
    by blast
qed

theorem C6_stopProcess_noop_idempotent_witness:
  "tracked initial_sys = None \<and> stopProcess initial_sys = Inr initial_sys \<and>
   supervised \<lparr>cmd = Some \<lparr>Path = ''./app'', Process = Some 7\<rparr>, alive = {7}, trace = []\<rparr> \<and>
   (\<exists>s1 s2.
      stopProcess \<lparr>cmd = Some \<lparr>Path = ''./app'', Process = Some 7\<rparr>, alive = {7}, trace = []\<rparr> =
        Inr s1 \<and> stopProcess s1 = Inr s2 \<and> alive s1 = {} \<and> alive s2 = {})"
proof -
  have t: "tracked initial_sys = None" by (simp add: tracked_def initial_sys_def)
  have v: "supervised \<lparr>cmd = Some \<lparr>Path = ''./app'', Process = Some 7\<rparr>, alive = {7}, trace = []\<rparr>"
    by (simp add: supervised_def tracked_def)
  from C6_stopProcess_noop_idempotent [of initial_sys] t
  have a: "stopProcess initial_sys = Inr initial_sys" by blast
  from C6_stopProcess_noop_idempotent
    [of "\<lparr>cmd = Some \<lparr>Path = ''./app'', Process = Some 7\<rparr>, alive = {7}, trace = []\<rparr>"] v
  have b: "\<exists>s1 s2.
      stopProcess \<lparr>cmd = Some \<lparr>Path = ''./app'', Process = Some 7\<rparr>, alive = {7}, trace = []\<rparr> =
        Inr s1 \<and> stopProcess s1 = Inr s2 \<and> alive s1 = {} \<and> alive s2 = {}"
    by blast
  from t a v b show ?thesis by blast
qed

text \<open>
  C7. When the build succeeds and \<^verbatim>\<open>cmd.Start()\<close> fails, \<^verbatim>\<open>buildAndRun\<close> prints the
  error as its last line and returns. \<^verbatim>\<open>cmd\<close> is then the new command with a nil
  \<^verbatim>\<open>Process\<close>, so no process is tracked, no process was added to the running ones, and
  a following \<^verbatim>\<open>stopProcess\<close> changes nothing and kills nothing. The coordinator's loop
  goes on to its next event.
\<close>

theorem C7_failed_launch_installs_no_process:
  assumes "buildErr env = None" and "startRes env = Inl e"
  shows "last (trace (buildAndRun cfg env s)) = Print (ErrorStarting e) \<and>
    tracked (buildAndRun cfg env s) = None \<and>
    alive (buildAndRun cfg env s) = alive s \<and>
    stopProcess (buildAndRun cfg env s) = Inr (buildAndRun cfg env s) \<and>
    (envs n = env \<longrightarrow>
      (\<exists>s1. stopProcess s = Inr s1 \<and>
         eventLoop cfg envs n s [FromBuildCh, FromBuildCh] =
           (None, buildAndRun cfg (envs (Suc n)) (buildAndRun cfg env s1))))"
proof -
  note eq = buildAndRun_start_failed [OF assms]
  have t: "tracked (buildAndRun cfg env s') = None" for s'
    by (simp add: eq tracked_def)
  have stop: "stopProcess (buildAndRun cfg env s') = Inr (buildAndRun cfg env s')" for s'
    using t [of s'] by (simp add: stopProcess_eq)
  obtain s1 where s1: "stopProcess s = Inr s1" using stopProcess_total by blast
  have "last (trace (buildAndRun cfg env s)) = Print (ErrorStarting e)"
    by (simp add: eq)
  moreover have "alive (buildAndRun cfg env s) = alive s"
    by (simp add: eq)
  moreover have "envs n = env \<longrightarrow>
      (\<exists>s1. stopProcess s = Inr s1 \<and>
         eventLoop cfg envs n s [FromBuildCh, FromBuildCh] =
           (None, buildAndRun cfg (envs (Suc n)) (buildAndRun cfg env s1)))"
    using s1 stop [of s1] by auto
  ultimately show ?thesis using t [of s] stop [of s] by blast
qed

theorem C7_failed_launch_installs_no_process_witness:
  "buildErr \<lparr>buildErr = None, startRes = Inl ''no such file''\<rparr> = None \<and>
   startRes \<lparr>buildErr = None, startRes = Inl ''no such file''\<rparr> = Inl ''no such file'' \<and>
   buildAndRun config \<lparr>buildErr = None, startRes = Inl ''no such file''\<rparr> initial_sys =
     \<lparr>cmd = Some \<lparr>Path = ''./app'', Process = None\<rparr>, alive = {},
      trace = [Print Building, RunBuild ''app'' ''main.go'', Print BuildSuccessful,
        Print RunningProgram, Start ''./app'', Print (ErrorStarting ''no such file'')]\<rparr> \<and>
   tracked (buildAndRun config \<lparr>buildErr = None, startRes = Inl ''no such file''\<rparr> initial_sys) =
     None \<and>
   stopProcess (buildAndRun config \<lparr>buildErr = None, startRes = Inl ''no such file''\<rparr> initial_sys) =
     Inr (buildAndRun config \<lparr>buildErr = None, startRes = Inl ''no such file''\<rparr> initial_sys)"
proof -
  have b: "buildErr \<lparr>buildErr = None, startRes = Inl ''no such file''\<rparr> = None" by simp
  have r: "startRes \<lparr>buildErr = None, startRes = Inl ''no such file''\<rparr> = Inl ''no such file''"
    by simp
  have v: "buildAndRun config \<lparr>buildErr = None, startRes = Inl ''no such file''\<rparr> initial_sys =
     \<lparr>cmd = Some \<lparr>Path = ''./app'', Process = None\<rparr>, alive = {},
      trace = [Print Building, RunBuild ''app'' ''main.go'', Print BuildSuccessful,
        Print RunningProgram, Start ''./app'', Print (ErrorStarting ''no such file'')]\<rparr>"
    by (simp add: buildAndRun_def println_def config_def initial_sys_def)
  from C7_failed_launch_installs_no_process [OF b r, of config initial_sys] b r v
  show ?thesis by blast
qed

text \<open>
  C8. A configuration file that sets \<^verbatim>\<open>watch_interval\<close> to \<^verbatim>\<open>abc\<close> and \<^verbatim>\<open>max_watchers\<close> to
  1000 and whose decoding then fails on another field: \<^verbatim>\<open>loadConfig\<close> returns before
  its bounds, so 1000 is not brought down to 500 and \<^verbatim>\<open>abc\<close> does not become \<^verbatim>\<open>1s\<close>; the
  detector reports the interval as invalid and the program exits with status 1.
\<close>

theorem C8_decode_error_skips_clamps:
  "loadConfig parseScenario
     (Data (\<lambda>c. (c\<lparr>WatchInterval := ''abc'', MaxWatchers := 1000\<rparr>,
                 Some ''json: cannot unmarshal number into Go struct field Config.main_file''))) config =
     config\<lparr>WatchInterval := ''abc'', MaxWatchers := 1000\<rparr> \<and>
   MaxWatchers (loadConfig parseScenario
     (Data (\<lambda>c. (c\<lparr>WatchInterval := ''abc'', MaxWatchers := 1000\<rparr>,
                 Some ''json: cannot unmarshal number into Go struct field Config.main_file''))) config) =
     1000 \<and>
   WatchInterval (loadConfig parseScenario
     (Data (\<lambda>c. (c\<lparr>WatchInterval := ''abc'', MaxWatchers := 1000\<rparr>,
                 Some ''json: cannot unmarshal number into Go struct field Config.main_file''))) config) =
     ''abc'' \<and>
   watchFiles parseScenario (config\<lparr>WatchInterval := ''abc'', MaxWatchers := 1000\<rparr>)
     [Visit ''main.go'' False 1] [] = Inr [Fatal (InvalidWatchInterval ''abc'')] \<and>
   exitStatus (main_go parseScenario
     (Data (\<lambda>c. (c\<lparr>WatchInterval := ''abc'', MaxWatchers := 1000\<rparr>,
                 Some ''json: cannot unmarshal number into Go struct field Config.main_file'')))
     [Visit ''main.go'' False 1] [] None (\<lambda>k. \<lparr>buildErr = None, startRes = Inr k\<rparr>)) = Some 1"
  by (simp add: main_go_def watchFiles_def parseScenario_def config_def shouldWatch_def
      HasSuffix_def received_def coordinator_def drain_exit exitStatus_Inr)

text \<open>
  C9 (amended). The table only grows. After a walk that ends without error, the initial
  one or a tick's, its paths are the paths it had before together with every watched
  file the walk visited; a path the walk did not visit as a watched file, such as a
  file that is no longer present, keeps its entry and its time stamp. The table changes
  nowhere but in the steps of a walk.
\<close>

theorem C9_table_only_grows:
  "(Walk (initialVisit cfg) tbl w = Inr tbl' \<longrightarrow>
      paths tbl' = paths tbl \<union> set (watchedPaths cfg w)) \<and>
   (Walk (tickVisit cfg) (ch, tbl) w = Inr (ch', tbl'') \<longrightarrow>
      paths tbl'' = paths tbl \<union> set (watchedPaths cfg w) \<and>
      (\<forall>p. p \<notin> set (watchedPaths cfg w) \<longrightarrow> map_of tbl'' p = map_of tbl p)) \<and>
   (tick cfg tbl [] = ([], Some tbl))"
  using Walk_initial_paths [of cfg tbl w tbl'] Walk_tick_paths [of cfg ch tbl w ch' tbl'']
    Walk_tick_stale [of cfg ch tbl w ch' tbl'']
  by (simp add: tick_def)

theorem C9_table_only_grows_witness:
  "Walk (initialVisit config) [] [Visit ''old.go'' False 1] = Inr [(''old.go'', 1)] \<and>
   paths [(''old.go'', 1)] = paths [] \<union> set (watchedPaths config [Visit ''old.go'' False 1]) \<and>
   Walk (tickVisit config) (False, [(''old.go'', 1)]) [Visit ''new.go'' False 2] =
     Inr (True, [(''old.go'', 1), (''new.go'', 2)]) \<and>
   paths [(''old.go'', 1), (''new.go'', 2)] =
     paths [(''old.go'', 1)] \<union> set (watchedPaths config [Visit ''new.go'' False 2])"
proof -
  have i: "Walk (initialVisit config) [] [Visit ''old.go'' False 1] = Inr [(''old.go'', 1)]"
    by (simp add: config_def shouldWatch_def HasSuffix_def)
  have k: "Walk (tickVisit config) (False, [(''old.go'', 1)]) [Visit ''new.go'' False 2] =
     Inr (True, [(''old.go'', 1), (''new.go'', 2)])"
    by (simp add: config_def shouldWatch_def HasSuffix_def After_def)
  from C9_table_only_grows [of config "[]" "[Visit ''old.go'' False 1]" "[(''old.go'', 1)]"]
  have a: "paths [(''old.go'', 1)] =
      paths [] \<union> set (watchedPaths config [Visit ''old.go'' False 1])"
    using i by blast
  from C9_table_only_grows [of config "[(''old.go'', 1)]" "[Visit ''new.go'' False 2]" _
      False True "[(''old.go'', 1), (''new.go'', 2)]"]
  have b: "paths [(''old.go'', 1), (''new.go'', 2)] =
     paths [(''old.go'', 1)] \<union> set (watchedPaths config [Visit ''new.go'' False 2])"
    using k by blast
  from i k a b show ?thesis by blast
qed

theorem C9_counterexample:
  "tick config [(''old.go'', 1)] [Visit ''new.go'' False 2] =
     ([Changed], Some [(''old.go'', 1), (''new.go'', 2)]) \<and>
   ''old.go'' \<notin> set (watchedPaths config [Visit ''new.go'' False 2]) \<and>
   ''old.go'' \<in> paths [(''old.go'', 1), (''new.go'', 2)]"
  by (simp add: tick_def config_def shouldWatch_def HasSuffix_def After_def paths_def)

text \<open>
  C10. \<^verbatim>\<open>stopProcess\<close> returns in every state and never panics. With \<^verbatim>\<open>cmd\<close> nil (nothing
  was ever launched) or \<^verbatim>\<open>cmd.Process\<close> nil (the last \<^verbatim>\<open>Start\<close> failed) it does nothing.
  The guard is what makes it so: in exactly those states the guarded body, run alone,
  would dereference nil. The exit path of the coordinator, which calls it, therefore
  ends with the status it was given.
\<close>

theorem C10_stopProcess_total:
  "(\<exists>s'. stopProcess s = Inr s') \<and>
   (cmd s = None \<longrightarrow> stopProcess s = Inr s) \<and>
   (\<forall>c. cmd s = Some c \<and> Process c = None \<longrightarrow> stopProcess s = Inr s) \<and>
   (tracked s = None \<longleftrightarrow> killAndWait s = Inl NilDereference) \<and>
   (\<forall>code. fst (drain code s) = Some code)"
proof (intro conjI allI impI)
  show "\<exists>s'. stopProcess s = Inr s'" by (rule stopProcess_total)
  show "stopProcess s = Inr s" if "cmd s = None"
    using that by (simp add: stopProcess_def)
  show "stopProcess s = Inr s" if "cmd s = Some c \<and> Process c = None" for c
    using that by (simp add: stopProcess_def)
  show "tracked s = None \<longleftrightarrow> killAndWait s = Inl NilDereference"
  proof (cases "tracked s")
    case None
    then show ?thesis by (simp add: killAndWait_untracked)
  next
    case (Some p)
    then show ?thesis by (simp add: killAndWait_tracked)
  qed
  show "fst (drain code s) = Some code" for code by (rule drain_exit)
qed

theorem C10_stopProcess_total_witness:
  "cmd initial_sys = None \<and> stopProcess initial_sys = Inr initial_sys \<and>
   cmd (initial_sys\<lparr>cmd := Some \<lparr>Path = ''./app'', Process = None\<rparr>\<rparr>) =
     Some \<lparr>Path = ''./app'', Process = None\<rparr> \<and>
   Process \<lparr>Path = ''./app'', Process = None\<rparr> = None \<and>
   stopProcess (initial_sys\<lparr>cmd := Some \<lparr>Path = ''./app'', Process = None\<rparr>\<rparr>) =
     Inr (initial_sys\<lparr>cmd := Some \<lparr>Path = ''./app'', Process = None\<rparr>\<rparr>) \<and>
   killAndWait initial_sys = Inl NilDereference"
proof -
  have a: "cmd initial_sys = None" by (simp add: initial_sys_def)
  have t: "tracked initial_sys = None" by (simp add: initial_sys_def tracked_def)
  have c: "cmd (initial_sys\<lparr>cmd := Some \<lparr>Path = ''./app'', Process = None\<rparr>\<rparr>) =
     Some \<lparr>Path = ''./app'', Process = None\<rparr> \<and> Process \<lparr>Path = ''./app'', Process = None\<rparr> = None"
    by simp
  from C10_stopProcess_total [of initial_sys] a t
  have x: "stopProcess initial_sys = Inr initial_sys \<and> killAndWait initial_sys = Inl NilDereference"
    by blast
  from C10_stopProcess_total [of "initial_sys\<lparr>cmd := Some \<lparr>Path = ''./app'', Process = None\<rparr>\<rparr>"] c
  have y: "stopProcess (initial_sys\<lparr>cmd := Some \<lparr>Path = ''./app'', Process = None\<rparr>\<rparr>) =
     Inr (initial_sys\<lparr>cmd := Some \<lparr>Path = ''./app'', Process = None\<rparr>\<rparr>)"
    by blast
  from a c x y show ?thesis by blast
qed

section \<open>Further properties\<close>

text \<open>
  For a configuration file that was read and decoded without error,
  \<^verbatim>\<open>loadConfig\<close> returns (it has no error to return) with \<^verbatim>\<open>max_watchers\<close> set to 100
  when it was below 1, to 500 when it was above 500, and unchanged in between; and with
  \<^verbatim>\<open>watch_interval\<close> set to \<^verbatim>\<open>1s\<close> when it is empty or does not parse, to \<^verbatim>\<open>500ms\<close> when it
  parses to less than 500 ms, to \<^verbatim>\<open>1h\<close> when it parses to more than an hour, and
  unchanged in between. The interval it leaves parses again, to a duration between
  500 ms and one hour, so the detector never reports it as invalid.
\<close>

theorem loadConfig_clamps_decoded:
  assumes "unmarshal c = (c0, None)"
  shows "(MaxWatchers c0 < 1 \<longrightarrow> MaxWatchers (loadConfig P (Data unmarshal) c) = 100) \<and>
    (MaxWatchers c0 > 500 \<longrightarrow> MaxWatchers (loadConfig P (Data unmarshal) c) = 500) \<and>
    (1 \<le> MaxWatchers c0 \<and> MaxWatchers c0 \<le> 500 \<longrightarrow>
       MaxWatchers (loadConfig P (Data unmarshal) c) = MaxWatchers c0) \<and>
    (P (WatchInterval c0) = None \<or> WatchInterval c0 = [] \<longrightarrow>
       WatchInterval (loadConfig P (Data unmarshal) c) = ''1s'') \<and>
    (\<forall>d. P (WatchInterval c0) = Some d \<and> WatchInterval c0 \<noteq> [] \<longrightarrow>
       (d < 500 * Millisecond \<longrightarrow> WatchInterval (loadConfig P (Data unmarshal) c) = ''500ms'') \<and>
       (d > Hour \<longrightarrow> WatchInterval (loadConfig P (Data unmarshal) c) = ''1h'') \<and>
       (500 * Millisecond \<le> d \<and> d \<le> Hour \<longrightarrow>
          WatchInterval (loadConfig P (Data unmarshal) c) = WatchInterval c0)) \<and>
    (P ''1s'' = Some Second \<and> P ''500ms'' = Some (500 * Millisecond) \<and> P ''1h'' = Some Hour \<longrightarrow>
       (\<exists>d. P (WatchInterval (loadConfig P (Data unmarshal) c)) = Some d \<and>
          500 * Millisecond \<le> d \<and> d \<le> Hour))"
proof -
  from assms have l: "loadConfig P (Data unmarshal) c = fst (validate P c0)" by simp
  have m: "MaxWatchers (loadConfig P (Data unmarshal) c) =
     (if MaxWatchers c0 < 1 then 100 else if MaxWatchers c0 > 500 then 500 else MaxWatchers c0)"
    unfolding l by (rule validate_MaxWatchers)
  have i: "WatchInterval (loadConfig P (Data unmarshal) c) =
     (case P (WatchInterval c0) of
        None \<Rightarrow> ''1s''
      | Some d \<Rightarrow>
          if WatchInterval c0 = [] then ''1s''
          else if d < 500 * Millisecond then ''500ms''
          else if d > Hour then ''1h''
          else WatchInterval c0)"
    unfolding l by (rule validate_WatchInterval)
  have a: "MaxWatchers c0 < 1 \<longrightarrow> MaxWatchers (loadConfig P (Data unmarshal) c) = 100"
    unfolding m by simp
  have b: "MaxWatchers c0 > 500 \<longrightarrow> MaxWatchers (loadConfig P (Data unmarshal) c) = 500"
    unfolding m by simp
  have c: "1 \<le> MaxWatchers c0 \<and> MaxWatchers c0 \<le> 500 \<longrightarrow>
       MaxWatchers (loadConfig P (Data unmarshal) c) = MaxWatchers c0"
    unfolding m by simp
  have d: "P (WatchInterval c0) = None \<or> WatchInterval c0 = [] \<longrightarrow>
       WatchInterval (loadConfig P (Data unmarshal) c) = ''1s''"
    unfolding i by (auto split: option.splits)
  have e: "\<forall>d. P (WatchInterval c0) = Some d \<and> WatchInterval c0 \<noteq> [] \<longrightarrow>
       (d < 500 * Millisecond \<longrightarrow> WatchInterval (loadConfig P (Data unmarshal) c) = ''500ms'') \<and>
       (d > Hour \<longrightarrow> WatchInterval (loadConfig P (Data unmarshal) c) = ''1h'') \<and>
       (500 * Millisecond \<le> d \<and> d \<le> Hour \<longrightarrow>
          WatchInterval (loadConfig P (Data unmarshal) c) = WatchInterval c0)"
    unfolding i by (auto simp: Millisecond_def Second_def Hour_def)
  have f: "P ''1s'' = Some Second \<and> P ''500ms'' = Some (500 * Millisecond) \<and> P ''1h'' = Some Hour \<longrightarrow>
       (\<exists>d. P (WatchInterval (loadConfig P (Data unmarshal) c)) = Some d \<and>
          500 * Millisecond \<le> d \<and> d \<le> Hour)"
    unfolding i by (auto simp: Millisecond_def Second_def Hour_def split: option.splits)
  from a b c d e f show ?thesis by blast
qed

theorem loadConfig_clamps_decoded_witness:
  "MaxWatchers (config\<lparr>WatchInterval := ''300ms'', MaxWatchers := 0\<rparr>) < 1 \<and>
   parseScenario (WatchInterval (config\<lparr>WatchInterval := ''300ms'', MaxWatchers := 0\<rparr>)) =
     Some (300 * Millisecond) \<and>
   300 * Millisecond < 500 * Millisecond \<and>
   MaxWatchers (loadConfig parseScenario
     (Data (\<lambda>c. (c\<lparr>WatchInterval := ''300ms'', MaxWatchers := 0\<rparr>, None))) config) = 100 \<and>
   WatchInterval (loadConfig parseScenario
     (Data (\<lambda>c. (c\<lparr>WatchInterval := ''300ms'', MaxWatchers := 0\<rparr>, None))) config) = ''500ms''"
proof -
  have m: "MaxWatchers (config\<lparr>WatchInterval := ''300ms'', MaxWatchers := 0\<rparr>) < 1" by simp
  have p: "parseScenario (WatchInterval (config\<lparr>WatchInterval := ''300ms'', MaxWatchers := 0\<rparr>)) =
     Some (300 * Millisecond)"
    by (simp add: parseScenario_def)
  have n: "WatchInterval (config\<lparr>WatchInterval := ''300ms'', MaxWatchers := 0\<rparr>) \<noteq> []" by simp
  have lt: "300 * Millisecond < 500 * Millisecond" by (simp add: Millisecond_def)
  have "MaxWatchers (loadConfig parseScenario
     (Data (\<lambda>c. (c\<lparr>WatchInterval := ''300ms'', MaxWatchers := 0\<rparr>, None))) config) = 100 \<and>
   WatchInterval (loadConfig parseScenario
     (Data (\<lambda>c. (c\<lparr>WatchInterval := ''300ms'', MaxWatchers := 0\<rparr>, None))) config) = ''500ms''"
    using loadConfig_clamps_decoded [of "\<lambda>c. (c\<lparr>WatchInterval := ''300ms'', MaxWatchers := 0\<rparr>, None)"
      config "config\<lparr>WatchInterval := ''300ms'', MaxWatchers := 0\<rparr>" parseScenario] m p n lt
    by blast
  with m p lt show ?thesis by blast
qed

text \<open>
  In \<^verbatim>\<open>main.go\<close> a walk that meets an error, the initial one or a tick's, ends the
  detector: the last thing \<^verbatim>\<open>watchFiles\<close> sends is an error, no table is left for a
  further tick, and the walks of later ticks are never made. When the entries before
  the failing one are visited without error, the error sent is the one the walk met.
  The coordinator exits with status 1 on it. A tick without changes sends nothing and
  keeps its table.
\<close>

theorem walk_errors_are_fatal:
  "(VisitErr path m \<in> set w \<longrightarrow>
      (\<exists>e. watchFiles ParseDuration cfg w ticks = Inr [Fatal e]) \<and>
      (\<exists>e. tick cfg tbl w = ([Fatal e], None) \<and> tickLoop cfg tbl (w # ticks) = [Fatal e] \<and>
           fst (eventLoop cfg envs n s (map toEvent (tickLoop cfg tbl (w # ticks)))) = Some 1)) \<and>
   (Walk (initialVisit cfg) [] pre = Inr t \<longrightarrow>
      watchFiles ParseDuration cfg (pre @ VisitErr path m # post) ticks =
        Inr [Fatal (WalkFailed m)]) \<and>
   (Walk (tickVisit cfg) (False, tbl) pre = Inr st \<longrightarrow>
      tickLoop cfg tbl ((pre @ VisitErr path m # post) # ticks) = [Fatal (WalkFailed m)]) \<and>
   (\<forall>tbl'. tick cfg tbl w = ([], Some tbl') \<longrightarrow> tickLoop cfg tbl (w # ticks) = tickLoop cfg tbl' ticks)"
proof (intro conjI impI allI)
  assume err: "VisitErr path m \<in> set w"
  then obtain e where "Walk (initialVisit cfg) [] w = Inl e"
    using Walk_initial_VisitErr by blast
  then show "\<exists>e. watchFiles ParseDuration cfg w ticks = Inr [Fatal e]"
    by (simp add: watchFiles_def)
  from err obtain e' where "Walk (tickVisit cfg) (False, tbl) w = Inl e'"
    using Walk_tick_VisitErr by blast
  then have "tick cfg tbl w = ([Fatal e'], None)" by (simp add: tick_def)
  then show "\<exists>e. tick cfg tbl w = ([Fatal e], None) \<and> tickLoop cfg tbl (w # ticks) = [Fatal e] \<and>
      fst (eventLoop cfg envs n s (map toEvent (tickLoop cfg tbl (w # ticks)))) = Some 1"
    by (simp add: drain_exit)
next
  assume "Walk (initialVisit cfg) [] pre = Inr t"
  then have "Walk (initialVisit cfg) [] (pre @ VisitErr path m # post) = Inl (WalkFailed m)"
    by (rule Walk_append_error) simp
  then show "watchFiles ParseDuration cfg (pre @ VisitErr path m # post) ticks =
      Inr [Fatal (WalkFailed m)]"
    by (simp add: watchFiles_def)
next
  assume pre: "Walk (tickVisit cfg) (False, tbl) pre = Inr st"
  obtain b t' where [simp]: "st = (b, t')" by (cases st)
  from pre have "Walk (tickVisit cfg) (False, tbl) (pre @ VisitErr path m # post) =
      Inl (WalkFailed m)"
    by (rule Walk_append_error) simp
  then show "tickLoop cfg tbl ((pre @ VisitErr path m # post) # ticks) = [Fatal (WalkFailed m)]"
    by (simp add: tick_def)
next
  fix tbl'
  assume "tick cfg tbl w = ([], Some tbl')"
  then show "tickLoop cfg tbl (w # ticks) = tickLoop cfg tbl' ticks" by simp
qed

theorem walk_errors_are_fatal_witness:
  "VisitErr ''vendor'' ''permission denied'' \<in>
     set [Visit ''a.go'' False 1, VisitErr ''vendor'' ''permission denied''] \<and>
   Walk (initialVisit config) [] [Visit ''a.go'' False 1] = Inr [(''a.go'', 1)] \<and>
   watchFiles (\<lambda>x. Some Second) config
     ([Visit ''a.go'' False 1] @ VisitErr ''vendor'' ''permission denied'' # [])
     [[Visit ''a.go'' False 3]] = Inr [Fatal (WalkFailed ''permission denied'')] \<and>
   Walk (tickVisit config) (False, [(''a.go'', 1)]) [Visit ''a.go'' False 1] =
     Inr (False, [(''a.go'', 1)]) \<and>
   tickLoop config [(''a.go'', 1)]
     (([Visit ''a.go'' False 1] @ VisitErr ''vendor'' ''permission denied'' # []) #
      [[Visit ''a.go'' False 3]]) = [Fatal (WalkFailed ''permission denied'')]"
proof -
  have i: "Walk (initialVisit config) [] [Visit ''a.go'' False 1] = Inr [(''a.go'', 1)]"
    by (simp add: config_def shouldWatch_def HasSuffix_def)
  have k: "Walk (tickVisit config) (False, [(''a.go'', 1)]) [Visit ''a.go'' False 1] =
     Inr (False, [(''a.go'', 1)])"
    by (simp add: config_def shouldWatch_def HasSuffix_def After_def)
  from walk_errors_are_fatal [of "''vendor''" "''permission denied''"
      "[Visit ''a.go'' False 1, VisitErr ''vendor'' ''permission denied'']"
      "\<lambda>x. Some Second" config "[[Visit ''a.go'' False 3]]" "[(''a.go'', 1)]"
      "\<lambda>k. \<lparr>buildErr = None, startRes = Inr k\<rparr>" 1 initial_sys
      "[Visit ''a.go'' False 1]" "[(''a.go'', 1)]" "[]" "(False, [(''a.go'', 1)])"] i k
  show ?thesis by simp
qed

text \<open>
  In the first revision no walk ever fails: every tick ends with a table, whatever
  errors the walk met.
\<close>

theorem first_revision_tick_never_ends:
  "\<exists>sent tbl'. tick_v1 cfg tbl w = (sent, Some tbl')"
proof -
  obtain sent ch t where "Walk (tickVisit_v1 cfg) ([], False, tbl) w = Inr (sent, ch, t)"
    using Walk_tick_v1_total by blast
  then show ?thesis by (simp add: tick_v1_def)
qed

text \<open>
  From the initial build on, the exit status of the coordinator is decided by the first
  event that is not a rebuild request: it is 0 exactly when that event is the shutdown
  signal, 1 exactly when it is an error of the detector, and the program has not exited
  while only rebuild requests have arrived. The outcomes of the builds and launches,
  the initial one included, have no part in it.
\<close>

theorem coordinator_exit_status:
  "(fst (coordinator cfg envs evs) = Some 0 \<longleftrightarrow>
      (\<exists>k rest. evs = replicate k FromBuildCh @ FromDone # rest)) \<and>
   (fst (coordinator cfg envs evs) = Some 1 \<longleftrightarrow>
      (\<exists>k e rest. evs = replicate k FromBuildCh @ FromErrCh e # rest)) \<and>
   (fst (coordinator cfg envs evs) = None \<longleftrightarrow> (\<exists>k. evs = replicate k FromBuildCh)) \<and>
   fst (coordinator cfg envs evs) = fst (coordinator cfg envs' evs)"
proof -
  define D where "D = dropWhile (\<lambda>ev. ev = FromBuildCh) evs"
  have code: "fst (coordinator cfg f evs) =
      (case D of [] \<Rightarrow> None | FromBuildCh # rest \<Rightarrow> None
       | FromErrCh e # rest \<Rightarrow> Some 1 | FromDone # rest \<Rightarrow> Some 0)" for f
    by (simp add: coordinator_def eventLoop_exit D_def)
  have no_rebuild: "D \<noteq> FromBuildCh # rest" for rest
    using dropWhile_rebuilds [of evs FromBuildCh rest] by (simp add: D_def)
  have "fst (coordinator cfg envs evs) = Some 0 \<longleftrightarrow> (\<exists>rest. D = FromDone # rest)"
    unfolding code by (cases D) (simp_all split: event.splits)
  also have "\<dots> \<longleftrightarrow> (\<exists>k rest. evs = replicate k FromBuildCh @ FromDone # rest)"
    unfolding D_def by (auto simp: dropWhile_rebuilds)
  finally have zero: "fst (coordinator cfg envs evs) = Some 0 \<longleftrightarrow>
      (\<exists>k rest. evs = replicate k FromBuildCh @ FromDone # rest)" .
  have "fst (coordinator cfg envs evs) = Some 1 \<longleftrightarrow> (\<exists>e rest. D = FromErrCh e # rest)"
    unfolding code by (cases D) (simp_all split: event.splits)
  also have "\<dots> \<longleftrightarrow> (\<exists>k e rest. evs = replicate k FromBuildCh @ FromErrCh e # rest)"
    unfolding D_def by (auto simp: dropWhile_rebuilds)
  finally have one: "fst (coordinator cfg envs evs) = Some 1 \<longleftrightarrow>
      (\<exists>k e rest. evs = replicate k FromBuildCh @ FromErrCh e # rest)" .
  have "fst (coordinator cfg envs evs) = None \<longleftrightarrow> D = []"
  proof (cases D)
    case Nil
    then show ?thesis by (simp add: code)
  next
    case (Cons a list)
    with no_rebuild [of list] have "a \<noteq> FromBuildCh" by auto
    with Cons show ?thesis by (cases a) (simp_all add: code)
  qed
  also have "\<dots> \<longleftrightarrow> (\<exists>k. evs = replicate k FromBuildCh)"
  proof
    assume "D = []"
    then have "\<forall>x\<in>set evs. x = FromBuildCh" by (simp add: D_def dropWhile_eq_Nil_conv)
    then have "replicate (length evs) FromBuildCh = evs" by (rule replicate_length_same)
    then have "evs = replicate (length evs) FromBuildCh" by simp
    then show "\<exists>k. evs = replicate k FromBuildCh" ..
  next
    assume "\<exists>k. evs = replicate k FromBuildCh"
    then show "D = []" by (auto simp: D_def dropWhile_eq_Nil_conv)
  qed
  finally have none: "fst (coordinator cfg envs evs) = None \<longleftrightarrow> (\<exists>k. evs = replicate k FromBuildCh)" .
  have "fst (coordinator cfg envs evs) = fst (coordinator cfg envs' evs)"
    by (simp only: code)
  with zero one none show ?thesis by blast
qed

theorem coordinator_exit_status_witness:
  "fst (coordinator config (\<lambda>k. \<lparr>buildErr = Some ''exit status 1'', startRes = Inr k\<rparr>)
      [FromBuildCh, FromDone]) = Some 0 \<and>
   fst (coordinator config (\<lambda>k. \<lparr>buildErr = Some ''exit status 1'', startRes = Inr k\<rparr>)
      [FromBuildCh, FromErrCh (WalkFailed ''gone'')]) = Some 1 \<and>
   fst (coordinator config (\<lambda>k. \<lparr>buildErr = Some ''exit status 1'', startRes = Inr k\<rparr>)
      [FromBuildCh, FromBuildCh]) = None"
proof -
  have a: "[FromBuildCh, FromDone] = replicate 1 FromBuildCh @ FromDone # []" by simp
  have b: "[FromBuildCh, FromErrCh (WalkFailed ''gone'')] =
      replicate 1 FromBuildCh @ FromErrCh (WalkFailed ''gone'') # []" by simp
  have c: "[FromBuildCh, FromBuildCh] = replicate 2 FromBuildCh"
    by (simp add: numeral_2_eq_2)
  from coordinator_exit_status [of config "\<lambda>k. \<lparr>buildErr = Some ''exit status 1'', startRes = Inr k\<rparr>"
      "[FromBuildCh, FromDone]"] a
  have x: "fst (coordinator config (\<lambda>k. \<lparr>buildErr = Some ''exit status 1'', startRes = Inr k\<rparr>)
      [FromBuildCh, FromDone]) = Some 0" by blast
  from coordinator_exit_status [of config "\<lambda>k. \<lparr>buildErr = Some ''exit status 1'', startRes = Inr k\<rparr>"
      "[FromBuildCh, FromErrCh (WalkFailed ''gone'')]"] b
  have y: "fst (coordinator config (\<lambda>k. \<lparr>buildErr = Some ''exit status 1'', startRes = Inr k\<rparr>)
      [FromBuildCh, FromErrCh (WalkFailed ''gone'')]) = Some 1" by blast
  from coordinator_exit_status [of config "\<lambda>k. \<lparr>buildErr = Some ''exit status 1'', startRes = Inr k\<rparr>"
      "[FromBuildCh, FromBuildCh]"] c
  have z: "fst (coordinator config (\<lambda>k. \<lparr>buildErr = Some ''exit status 1'', startRes = Inr k\<rparr>)
      [FromBuildCh, FromBuildCh]) = None" by blast
  from x y z show ?thesis by blast
qed

text \<open>
  The exit status of \<^verbatim>\<open>main\<close> with its detector: it is 2 exactly when the detector
  panics and no signal was received first; otherwise it is the coordinator's, on the
  events it received. With a configuration file that is missing, or decoded without
  error, and a parser that reads \<^verbatim>\<open>1s\<close>, \<^verbatim>\<open>500ms\<close> and \<^verbatim>\<open>1h\<close> as Go does, the detector does
  not panic and the status is none, 0 or 1.
\<close>

theorem main_go_exit_status:
  "(exitStatus (main_go P cfile initial ticks sig envs) = Some 2 \<longleftrightarrow>
      (\<exists>f. watchFiles P (loadConfig P cfile config) initial ticks = Inl f) \<and> sig \<noteq> Some 0) \<and>
   (\<forall>sent. watchFiles P (loadConfig P cfile config) initial ticks = Inr sent \<longrightarrow>
      exitStatus (main_go P cfile initial ticks sig envs) =
        fst (coordinator (loadConfig P cfile config) envs (received sig (map toEvent sent))))"
proof (cases "watchFiles P (loadConfig P cfile config) initial ticks")
  case (Inl f)
  have "fst (coordinator (loadConfig P cfile config) envs [FromDone]) = Some 0"
    by (simp add: coordinator_def drain_exit)
  with Inl show ?thesis by (simp add: main_go_def exitStatus_Inr)
next
  case (Inr sent)
  have "fst (coordinator (loadConfig P cfile config) envs (received sig (map toEvent sent))) \<noteq>
      Some 2"
    using coordinator_status_range
      [of "loadConfig P cfile config" envs "received sig (map toEvent sent)"]
    by auto
  with Inr show ?thesis by (simp add: main_go_def exitStatus_Inr)
qed

theorem main_go_exit_status_decoded:
  assumes src: "cfile = NotExist \<or> (\<exists>unmarshal c0. cfile = Data unmarshal \<and> unmarshal config = (c0, None))"
    and P: "P ''1s'' = Some Second" "P ''500ms'' = Some (500 * Millisecond)" "P ''1h'' = Some Hour"
  shows "exitStatus (main_go P cfile initial ticks sig envs) \<in> {None, Some 0, Some 1}"
proof -
  have "\<exists>d. P (WatchInterval (loadConfig P cfile config)) = Some d \<and> 0 < d"
  proof -
    from src show ?thesis
    proof
      assume "cfile = NotExist"
      with P(1) show ?thesis by (simp add: config_def Second_def Millisecond_def)
    next
      assume "\<exists>unmarshal c0. cfile = Data unmarshal \<and> unmarshal config = (c0, None)"
      then obtain unmarshal c0 where f: "cfile = Data unmarshal" and u: "unmarshal config = (c0, None)"
        by blast
      from loadConfig_clamps_decoded [of unmarshal config c0 P] u P
      obtain d where "P (WatchInterval (loadConfig P (Data unmarshal) config)) = Some d"
        and "500 * Millisecond \<le> d"
        by blast
      with f show ?thesis by (auto simp: Millisecond_def)
    qed
  qed
  then obtain d where d: "P (WatchInterval (loadConfig P cfile config)) = Some d" and pos: "0 < d"
    by blast
  have "\<exists>sent. watchFiles P (loadConfig P cfile config) initial ticks = Inr sent"
    using d pos by (simp add: watchFiles_def split: sum.splits)
  then obtain sent where "watchFiles P (loadConfig P cfile config) initial ticks = Inr sent" ..
  with main_go_exit_status [of P cfile initial ticks sig envs]
  have "exitStatus (main_go P cfile initial ticks sig envs) =
      fst (coordinator (loadConfig P cfile config) envs (received sig (map toEvent sent)))"
    by blast
  with coordinator_status_range
    [of "loadConfig P cfile config" envs "received sig (map toEvent sent)"]
  show ?thesis by simp
qed

text \<open>
  An initial walk that meets no walk error, with a limit that is not negative,
  fails if and only if the number of watched files it visits exceeds \<^verbatim>\<open>max_watchers\<close>;
  the error is then the limit error, and a walk that succeeds has recorded every
  watched file: a count of exactly \<^verbatim>\<open>max_watchers\<close> is accepted and nothing is dropped.
\<close>

theorem initial_walk_limit:
  assumes "0 \<le> MaxWatchers cfg" and "\<forall>path m. VisitErr path m \<notin> set w"
  shows "((\<exists>e. Walk (initialVisit cfg) [] w = Inl e) \<longleftrightarrow>
            MaxWatchers cfg < int (card (set (watchedPaths cfg w)))) \<and>
         (\<forall>e. Walk (initialVisit cfg) [] w = Inl e \<longrightarrow> e = ExceededMaxWatchers (MaxWatchers cfg)) \<and>
         (\<forall>tbl. Walk (initialVisit cfg) [] w = Inr tbl \<longrightarrow> paths tbl = set (watchedPaths cfg w))"
proof -
  have "(\<exists>tbl'. Walk (initialVisit cfg) [] w = Inr tbl' \<and>
            int (card (paths [] \<union> set (watchedPaths cfg w))) \<le> MaxWatchers cfg) \<or>
         (Walk (initialVisit cfg) [] w = Inl (ExceededMaxWatchers (MaxWatchers cfg)) \<and>
            MaxWatchers cfg < int (card (paths [] \<union> set (watchedPaths cfg w))))"
    using assms by (intro Walk_initial_limit) simp_all
  moreover have "paths [] = {}" by (simp add: paths_def)
  moreover have "\<forall>tbl. Walk (initialVisit cfg) [] w = Inr tbl \<longrightarrow>
      paths tbl = set (watchedPaths cfg w)"
    using Walk_initial_paths [of cfg "[]" w] by (simp add: paths_def)
  ultimately show ?thesis by auto
qed

theorem initial_walk_limit_witness:
  "0 \<le> MaxWatchers (config\<lparr>MaxWatchers := 2\<rparr>) \<and>
   Walk (initialVisit (config\<lparr>MaxWatchers := 2\<rparr>)) []
     [Visit ''a.go'' False 1, Visit ''b.go'' False 1] = Inr [(''a.go'', 1), (''b.go'', 1)] \<and>
   paths [(''a.go'', 1), (''b.go'', 1)] =
     set (watchedPaths (config\<lparr>MaxWatchers := 2\<rparr>) [Visit ''a.go'' False 1, Visit ''b.go'' False 1])"
proof -
  have a: "0 \<le> MaxWatchers (config\<lparr>MaxWatchers := 2\<rparr>)" by simp
  have b: "\<forall>path m. VisitErr path m \<notin> set [Visit ''a.go'' False 1, Visit ''b.go'' False 1]"
    by simp
  have c: "Walk (initialVisit (config\<lparr>MaxWatchers := 2\<rparr>)) []
     [Visit ''a.go'' False 1, Visit ''b.go'' False 1] = Inr [(''a.go'', 1), (''b.go'', 1)]"
    by (simp add: config_def shouldWatch_def HasSuffix_def)
  from initial_walk_limit [OF a b] c
  have "paths [(''a.go'', 1), (''b.go'', 1)] =
     set (watchedPaths (config\<lparr>MaxWatchers := 2\<rparr>) [Visit ''a.go'' False 1, Visit ''b.go'' False 1])"
    by blast
  with a c show ?thesis by blast
qed

text \<open>
  Whatever events arrive and however the builds and launches end, at most one
  child process is running in every state \<^verbatim>\<open>main\<close> reaches, and it is the one \<^verbatim>\<open>cmd\<close>
  tracks; once the program has exited, none is running.
\<close>

theorem at_most_one_process:
  "supervised (snd (coordinator cfg envs evs)) \<and>
   alive (snd (coordinator cfg envs evs)) \<subseteq> set_option (tracked (snd (coordinator cfg envs evs))) \<and>
   card (alive (snd (coordinator cfg envs evs))) \<le> 1 \<and>
   (fst (coordinator cfg envs evs) \<noteq> None \<longrightarrow> alive (snd (coordinator cfg envs evs)) = {})"
proof -
  have "alive initial_sys = {}" by (simp add: initial_sys_def)
  then have "supervised (buildAndRun cfg (envs 0) initial_sys)" by (rule buildAndRun_supervised)
  then have both: "supervised (snd (coordinator cfg envs evs)) \<and>
      (fst (coordinator cfg envs evs) \<noteq> None \<longrightarrow> alive (snd (coordinator cfg envs evs)) = {})"
    unfolding coordinator_def by (rule eventLoop_supervised)
  then have sub: "alive (snd (coordinator cfg envs evs)) \<subseteq>
      set_option (tracked (snd (coordinator cfg envs evs)))"
    by (simp add: supervised_def)
  have fin: "finite (set_option x)" and one: "card (set_option x) \<le> 1" for x :: "nat option"
    by (cases x; simp)+
  from sub have "card (alive (snd (coordinator cfg envs evs))) \<le>
      card (set_option (tracked (snd (coordinator cfg envs evs))))"
    by (rule card_mono [OF fin])
  with one [of "tracked (snd (coordinator cfg envs evs))"]
  have c: "card (alive (snd (coordinator cfg envs evs))) \<le> 1" by (rule order_trans [rotated])
  from both sub c show ?thesis by blast
qed

theorem at_most_one_process_witness:
  "coordinator config (\<lambda>k. \<lparr>buildErr = None, startRes = Inr (10 + k)\<rparr>) [FromBuildCh] =
     (None, \<lparr>cmd = Some \<lparr>Path = ''./app'', Process = Some 11\<rparr>, alive = {11},
        trace = [Print Building, RunBuild ''app'' ''main.go'', Print BuildSuccessful,
          Print RunningProgram, Start ''./app'', Print ProgramIsRunning,
          Print StoppingPrevious, Kill 10, Wait 10,
          Print Building, RunBuild ''app'' ''main.go'', Print BuildSuccessful,
          Print RunningProgram, Start ''./app'', Print ProgramIsRunning]\<rparr>) \<and>
   card (alive (snd (coordinator config (\<lambda>k. \<lparr>buildErr = None, startRes = Inr (10 + k)\<rparr>)
     [FromBuildCh]))) \<le> 1"
proof -
  have "coordinator config (\<lambda>k. \<lparr>buildErr = None, startRes = Inr (10 + k)\<rparr>) [FromBuildCh] =
     (None, \<lparr>cmd = Some \<lparr>Path = ''./app'', Process = Some 11\<rparr>, alive = {11},
        trace = [Print Building, RunBuild ''app'' ''main.go'', Print BuildSuccessful,
          Print RunningProgram, Start ''./app'', Print ProgramIsRunning,
          Print StoppingPrevious, Kill 10, Wait 10,
          Print Building, RunBuild ''app'' ''main.go'', Print BuildSuccessful,
          Print RunningProgram, Start ''./app'', Print ProgramIsRunning]\<rparr>)"
    by (simp add: coordinator_def initial_sys_def buildAndRun_def println_def config_def
        stopProcess_eq tracked_def)
  with at_most_one_process [of config "\<lambda>k. \<lparr>buildErr = None, startRes = Inr (10 + k)\<rparr>"
      "[FromBuildCh]"]
  show ?thesis by blast
qed

text \<open>
  When \<^verbatim>\<open>json.Unmarshal\<close> returns an error, \<^verbatim>\<open>loadConfig\<close> returns at once with the
  configuration as \<^verbatim>\<open>Unmarshal\<close> left it: the fields it stored before it met the error
  are kept as they are, outside the bounds or not.
\<close>

theorem decode_error_skips_bounds:
  assumes "unmarshal c = (c', Some e)"
  shows "loadConfig P (Data unmarshal) c = c'"
  using assms by simp

theorem decode_error_skips_bounds_witness:
  "loadConfig parseScenario
     (Data (\<lambda>c. (c\<lparr>WatchInterval := ''300ms'', MaxWatchers := 1000\<rparr>,
                 Some ''cannot unmarshal number into Go struct field Config.main_file''))) config =
     config\<lparr>WatchInterval := ''300ms'', MaxWatchers := 1000\<rparr> \<and>
   MaxWatchers (config\<lparr>WatchInterval := ''300ms'', MaxWatchers := 1000\<rparr>) = 1000"
proof -
  have "loadConfig parseScenario
     (Data (\<lambda>c. (c\<lparr>WatchInterval := ''300ms'', MaxWatchers := 1000\<rparr>,
                 Some ''cannot unmarshal number into Go struct field Config.main_file''))) config =
     config\<lparr>WatchInterval := ''300ms'', MaxWatchers := 1000\<rparr>"
    by (rule decode_error_skips_bounds) simp
  then show ?thesis by simp
qed

end
